theory Spec2Isabelle
  imports Complex_Main "HOL-Library.Log_Nat" "HOL-Library.Word"
begin

section \<open>JavaScript values used by the relay\<close>

subsection \<open>Strings\<close>

text \<open>
  A string is modelled by its UTF-8 encoding, the encoding of the source file and of the
  JSON response. The program never measures or indexes a string: it only concatenates
  strings and hands them to \<open>parseFloat\<close>. The three non-ASCII characters of the
  template literal in \<open>convertToDMS\<close> are U+00B0 (degree sign), U+2032 (prime) and
  U+2033 (double prime).
\<close>

definition degree_sign :: string where
  "degree_sign = [CHR 0xC2, CHR 0xB0]"

definition prime_sign :: string where
  "prime_sign = [CHR 0xE2, CHR 0x80, CHR 0xB2]"

definition double_prime_sign :: string where
  "double_prime_sign = [CHR 0xE2, CHR 0x80, CHR 0xB3]"

subsection \<open>Numbers: IEEE 754 binary64\<close>

text \<open>
  A Number is NaN, an infinity (\<open>Infinity True\<close> is the negative one) or a finite value,
  carried as the rational it denotes. The sign of zero is not modelled: \<open>convertToDMS\<close>
  reads its arguments through \<open>>=\<close> and \<open>Math.abs\<close> only, which do not tell \<open>-0\<close> from
  \<open>+0\<close>, and none of its intermediate results is \<open>-0\<close>. Every arithmetic result is
  rounded to the nearest binary64 value, ties to even, by \<open>round64\<close>; \<open>is_double\<close> holds
  of the rationals that are binary64 values.
\<close>

datatype js_number = NaN | Infinity bool | Fin rat

text \<open>
  \<open>digit_count b x\<close> is the number of digits of the positive integer \<open>x\<close> in base
  \<open>b\<close>; \<open>ilog b q\<close> is the integer \<open>e\<close> with \<open>b ^ e \<le> |q| < b ^ (e + 1)\<close>, for
  \<open>q \<noteq> 0\<close>.
\<close>

function digit_count :: "int \<Rightarrow> int \<Rightarrow> int" where
  "digit_count b x = (if 0 < x \<and> 1 < b then digit_count b (x div b) + 1 else 0)"
  by pat_completeness auto
termination
  by (relation "measure (\<lambda>(b, x). nat x)")
     (auto simp: pos_imp_zdiv_nonneg_iff intro: int_div_less_self)

declare digit_count.simps [simp del]

definition ilog :: "int \<Rightarrow> rat \<Rightarrow> int" where
  "ilog b q =
     (let (p, d) = quotient_of \<bar>q\<bar>;
          e0 = digit_count b p - digit_count b d
      in if of_int b powi e0 \<le> \<bar>q\<bar> then e0 else e0 - 1)"

definition round_half_even :: "rat \<Rightarrow> int" where
  "round_half_even x =
     (let f = \<lfloor>x\<rfloor>; d = x - of_int f
      in if d < 1 / 2 then f
         else if 1 / 2 < d then f + 1
         else if even f then f else f + 1)"

text \<open>
  The unit in the last place of the binade of \<open>q\<close>: 53 significant bits, the exponent
  of the leading bit not below \<open>-1022\<close> (below that the values are subnormal).
\<close>

definition uexp :: "rat \<Rightarrow> int" where
  "uexp q = max (ilog 2 q) (- 1022) - 52"

definition ulp64 :: "rat \<Rightarrow> rat" where
  "ulp64 q = 2 powi uexp q"

definition round64 :: "rat \<Rightarrow> js_number" where
  "round64 q =
     (if q = 0 then Fin 0
      else let r = of_int (round_half_even (q / ulp64 q)) * ulp64 q
           in if 2 ^ 1024 \<le> \<bar>r\<bar> then Infinity (r < 0) else Fin r)"

definition is_double :: "rat \<Rightarrow> bool" where
  "is_double q \<longleftrightarrow> round64 q = Fin q"

text \<open>The operators and \<open>Math\<close> functions that \<open>convertToDMS\<close> uses.\<close>

fun js_ge :: "js_number \<Rightarrow> js_number \<Rightarrow> bool" where
  "js_ge NaN _ = False"
| "js_ge _ NaN = False"
| "js_ge (Infinity a) (Infinity b) = (a \<longrightarrow> b)"
| "js_ge (Infinity a) (Fin _) = (\<not> a)"
| "js_ge (Fin _) (Infinity b) = b"
| "js_ge (Fin x) (Fin y) = (y \<le> x)"

fun Math_abs :: "js_number \<Rightarrow> js_number" where
  "Math_abs NaN = NaN"
| "Math_abs (Infinity _) = Infinity False"
| "Math_abs (Fin x) = Fin \<bar>x\<bar>"

fun Math_floor :: "js_number \<Rightarrow> js_number" where
  "Math_floor NaN = NaN"
| "Math_floor (Infinity a) = Infinity a"
| "Math_floor (Fin x) = Fin (of_int \<lfloor>x\<rfloor>)"

text \<open>\<open>Math.round\<close> rounds to the nearest integer, a tie towards \<open>+\<infinity>\<close>.\<close>

fun Math_round :: "js_number \<Rightarrow> js_number" where
  "Math_round NaN = NaN"
| "Math_round (Infinity a) = Infinity a"
| "Math_round (Fin x) = Fin (of_int \<lfloor>x + 1 / 2\<rfloor>)"

fun js_sub :: "js_number \<Rightarrow> js_number \<Rightarrow> js_number" where
  "js_sub NaN _ = NaN"
| "js_sub _ NaN = NaN"
| "js_sub (Infinity a) (Infinity b) = (if a = b then NaN else Infinity a)"
| "js_sub (Infinity a) (Fin _) = Infinity a"
| "js_sub (Fin _) (Infinity b) = Infinity (\<not> b)"
| "js_sub (Fin x) (Fin y) = round64 (x - y)"

fun js_mul :: "js_number \<Rightarrow> js_number \<Rightarrow> js_number" where
  "js_mul NaN _ = NaN"
| "js_mul _ NaN = NaN"
| "js_mul (Infinity a) (Infinity b) = Infinity (a \<noteq> b)"
| "js_mul (Infinity a) (Fin y) = (if y = 0 then NaN else Infinity (a \<noteq> (y < 0)))"
| "js_mul (Fin x) (Infinity b) = (if x = 0 then NaN else Infinity ((x < 0) \<noteq> b))"
| "js_mul (Fin x) (Fin y) = round64 (x * y)"

subsection \<open>Number to string\<close>

text \<open>
  \<open>Number::toString\<close> in radix 10, as a template literal applies it: the shortest digit
  string \<open>s\<close> of \<open>k\<close> digits with \<open>s * 10 ^ (n - k)\<close> rounding to the number, the closest
  one where several exist, printed as an integer, a decimal fraction or in exponent
  notation depending on \<open>n\<close>.
\<close>

definition digit_char :: "int \<Rightarrow> char" where
  "digit_char d = char_of (48 + d)"

function dec_digits :: "int \<Rightarrow> string" where
  "dec_digits n =
     (if n < 10 then [digit_char n] else dec_digits (n div 10) @ [digit_char (n mod 10)])"
  by pat_completeness auto
termination
  by (relation "measure nat") auto

declare dec_digits.simps [simp del]

definition digit_candidates :: "rat \<Rightarrow> nat \<Rightarrow> (int \<times> int) list" where
  "digit_candidates x k =
     concat (map (\<lambda>n. let t = \<lfloor>x / 10 powi (n - int k)\<rfloor>
                      in filter (\<lambda>(n, s). 10 ^ (k - 1) \<le> s \<and> s < 10 ^ k \<and>
                                   round64 (of_int s * 10 powi (n - int k)) = Fin x)
                           [(n, t), (n, t + 1)])
                [ilog 10 x + 1, ilog 10 x + 2])"

definition candidate_error :: "rat \<Rightarrow> nat \<Rightarrow> int \<times> int \<Rightarrow> rat" where
  "candidate_error x k c = \<bar>of_int (snd c) * 10 powi (fst c - int k) - x\<bar>"

definition closer_candidate :: "rat \<Rightarrow> nat \<Rightarrow> int \<times> int \<Rightarrow> int \<times> int \<Rightarrow> int \<times> int" where
  "closer_candidate x k c d =
     (if candidate_error x k d < candidate_error x k c then d
      else if candidate_error x k d = candidate_error x k c \<and> even (snd d) then d
      else c)"

text \<open>
  The search tries \<open>k = 1, 2, ...\<close>; seventeen digits identify every binary64 value, so
  the last equation is reached only for a rational that is not one.
\<close>

fun shortest_digits :: "rat \<Rightarrow> nat \<Rightarrow> nat \<Rightarrow> int \<times> nat \<times> int" where
  "shortest_digits x 0 k = (ilog 10 x + 1, k, \<lfloor>x / 10 powi (ilog 10 x + 1 - int k)\<rfloor>)"
| "shortest_digits x (Suc fuel) k =
     (case digit_candidates x k of
        [] \<Rightarrow> shortest_digits x fuel (Suc k)
      | c # cs \<Rightarrow> (let (n, s) = foldl (closer_candidate x k) c cs in (n, k, s)))"

definition positive_to_string :: "rat \<Rightarrow> string" where
  "positive_to_string x =
     (let (n, k, s) = shortest_digits x 17 1; ds = dec_digits s
      in if int k \<le> n \<and> n \<le> 21 then ds @ replicate (nat (n - int k)) CHR ''0''
         else if 0 < n \<and> n \<le> 21 then take (nat n) ds @ ''.'' @ drop (nat n) ds
         else if - 6 < n \<and> n \<le> 0 then ''0.'' @ replicate (nat (- n)) CHR ''0'' @ ds
         else let e = n - 1;
                  es = (if e < 0 then ''-'' else ''+'') @ dec_digits \<bar>e\<bar>
              in if k = 1 then ds @ ''e'' @ es
                 else take 1 ds @ ''.'' @ drop 1 ds @ ''e'' @ es)"

fun ToString :: "js_number \<Rightarrow> string" where
  "ToString NaN = ''NaN''"
| "ToString (Infinity neg) = (if neg then ''-Infinity'' else ''Infinity'')"
| "ToString (Fin x) =
     (if x = 0 then ''0''
      else if x < 0 then ''-'' @ positive_to_string (- x)
      else positive_to_string x)"

subsection \<open>\<open>parseFloat\<close>\<close>

text \<open>
  \<open>parseFloat\<close> converts its argument to a string (\<open>undefined\<close>, a form field that is
  missing, becomes the string \<open>undefined\<close>), strips leading white space and line
  terminators, and reads the longest prefix that is a \<open>StrDecimalLiteral\<close>; without
  such a prefix the result is NaN.
\<close>

definition white_space :: "string list" where
  "white_space =
     [[CHR 0x09], [CHR 0x0A], [CHR 0x0B], [CHR 0x0C], [CHR 0x0D], [CHR 0x20],
      [CHR 0xC2, CHR 0xA0], [CHR 0xE1, CHR 0x9A, CHR 0x80],
      [CHR 0xE2, CHR 0x80, CHR 0x80], [CHR 0xE2, CHR 0x80, CHR 0x81],
      [CHR 0xE2, CHR 0x80, CHR 0x82], [CHR 0xE2, CHR 0x80, CHR 0x83],
      [CHR 0xE2, CHR 0x80, CHR 0x84], [CHR 0xE2, CHR 0x80, CHR 0x85],
      [CHR 0xE2, CHR 0x80, CHR 0x86], [CHR 0xE2, CHR 0x80, CHR 0x87],
      [CHR 0xE2, CHR 0x80, CHR 0x88], [CHR 0xE2, CHR 0x80, CHR 0x89],
      [CHR 0xE2, CHR 0x80, CHR 0x8A], [CHR 0xE2, CHR 0x80, CHR 0xA8],
      [CHR 0xE2, CHR 0x80, CHR 0xA9], [CHR 0xE2, CHR 0x80, CHR 0xAF],
      [CHR 0xE2, CHR 0x81, CHR 0x9F], [CHR 0xE3, CHR 0x80, CHR 0x80],
      [CHR 0xEF, CHR 0xBB, CHR 0xBF]]"

definition ws_len :: "string \<Rightarrow> nat" where
  "ws_len s =
     (case find (\<lambda>w. take (length w) s = w) white_space of
        None \<Rightarrow> 0
      | Some w \<Rightarrow> length w)"

lemma ws_len_drop: "0 < ws_len s \<Longrightarrow> length s - ws_len s < length s"
  by (cases s) (auto simp: ws_len_def white_space_def)

function TrimStart :: "string \<Rightarrow> string" where
  "TrimStart s = (if ws_len s = 0 then s else TrimStart (drop (ws_len s) s))"
  by pat_completeness auto
termination
  by (relation "measure length") (auto intro: ws_len_drop)

declare TrimStart.simps [simp del]

definition is_digit :: "char \<Rightarrow> bool" where
  "is_digit c \<longleftrightarrow> 48 \<le> (of_char c :: nat) \<and> (of_char c :: nat) \<le> 57"

definition digits_value :: "string \<Rightarrow> int" where
  "digits_value ds = foldl (\<lambda>a c. 10 * a + (of_char c - 48)) 0 ds"

definition split_sign :: "string \<Rightarrow> bool \<times> string" where
  "split_sign s =
     (case s of
        [] \<Rightarrow> (False, [])
      | c # cs \<Rightarrow> if c = CHR ''-'' then (True, cs)
                  else if c = CHR ''+'' then (False, cs) else (False, s))"

definition exponent_part :: "string \<Rightarrow> int" where
  "exponent_part s =
     (case s of
        [] \<Rightarrow> 0
      | c # cs \<Rightarrow>
          if c = CHR ''e'' \<or> c = CHR ''E''
          then (let (neg, r) = split_sign cs; ds = takeWhile is_digit r
                in if ds = [] then 0
                   else if neg then - digits_value ds else digits_value ds)
          else 0)"

definition parseFloat :: "string option \<Rightarrow> js_number" where
  "parseFloat v =
     (let (neg, u) = split_sign (TrimStart (case v of None \<Rightarrow> ''undefined'' | Some s \<Rightarrow> s))
      in if take 8 u = ''Infinity'' then Infinity neg
         else let ip = takeWhile is_digit u;
                  r = dropWhile is_digit u;
                  fp = (case r of [] \<Rightarrow> [] | c # cs \<Rightarrow>
                          if c = CHR ''.'' then takeWhile is_digit cs else []);
                  t = (case r of [] \<Rightarrow> [] | c # cs \<Rightarrow>
                          if c = CHR ''.'' then dropWhile is_digit cs else r)
              in if ip = [] \<and> fp = [] then NaN
                 else let q = of_int (digits_value (ip @ fp))
                                * 10 powi (exponent_part t - int (length fp))
                      in round64 (if neg then - q else q))"

section \<open>The coordinate formatter\<close>

text \<open>\<open>convertToDMS\<close> of \<open>server/src/index.ts\<close>, binding by binding.\<close>

definition convertToDMS :: "js_number \<Rightarrow> js_number \<Rightarrow> string" where
  "convertToDMS lat lng =
     (let latDir = (if js_ge lat (Fin 0) then ''N'' else ''S'');
          lngDir = (if js_ge lng (Fin 0) then ''E'' else ''W'');
          absLat = Math_abs lat;
          absLng = Math_abs lng;
          latDeg = Math_floor absLat;
          latMin = Math_floor (js_mul (js_sub absLat latDeg) (Fin 60));
          latSec = Math_round
                     (js_mul (js_sub (js_mul (js_sub absLat latDeg) (Fin 60)) latMin) (Fin 60));
          lngDeg = Math_floor absLng;
          lngMin = Math_floor (js_mul (js_sub absLng lngDeg) (Fin 60));
          lngSec = Math_round
                     (js_mul (js_sub (js_mul (js_sub absLng lngDeg) (Fin 60)) lngMin) (Fin 60))
      in ToString latDeg @ degree_sign @ ToString latMin @ prime_sign @ ToString latSec
           @ double_prime_sign @ latDir @ '', ''
           @ ToString lngDeg @ degree_sign @ ToString lngMin @ prime_sign @ ToString lngSec
           @ double_prime_sign @ lngDir)"

text \<open>
  The same conversion in the words of the specification, one axis at a time: degrees
  are the floor of the absolute value, minutes the floor of sixty times the rest,
  seconds the rounding of sixty times what the minutes leave, each step in Number
  arithmetic; the direction letter is the one for non-negative values when the value
  is not below zero.
\<close>

definition dms_degrees :: "js_number \<Rightarrow> js_number" where
  "dms_degrees v = Math_floor (Math_abs v)"

definition dms_minutes :: "js_number \<Rightarrow> js_number" where
  "dms_minutes v = Math_floor (js_mul (js_sub (Math_abs v) (dms_degrees v)) (Fin 60))"

definition dms_seconds :: "js_number \<Rightarrow> js_number" where
  "dms_seconds v =
     Math_round
       (js_mul (js_sub (js_mul (js_sub (Math_abs v) (dms_degrees v)) (Fin 60)) (dms_minutes v))
          (Fin 60))"

definition dms_axis :: "js_number \<Rightarrow> string \<Rightarrow> string" where
  "dms_axis v letter =
     ToString (dms_degrees v) @ degree_sign @ ToString (dms_minutes v) @ prime_sign @
     ToString (dms_seconds v) @ double_prime_sign @ letter"

text \<open>
  The formulas of the specification read in exact arithmetic, on the rational a Number
  denotes: no product is rounded.
\<close>

definition exact_degrees :: "rat \<Rightarrow> int" where
  "exact_degrees v = \<lfloor>\<bar>v\<bar>\<rfloor>"

definition exact_minutes :: "rat \<Rightarrow> int" where
  "exact_minutes v = \<lfloor>(\<bar>v\<bar> - of_int (exact_degrees v)) * 60\<rfloor>"

definition exact_seconds :: "rat \<Rightarrow> int" where
  "exact_seconds v =
     round (((\<bar>v\<bar> - of_int (exact_degrees v)) * 60 - of_int (exact_minutes v)) * 60)"

section \<open>The generation relay\<close>

text \<open>
  The handler of \<open>POST /api/generate\<close>. What it receives and what it talks to:
  \<^item> the request, after \<open>multer\<close> has parsed it: the form fields \<open>lat\<close> and \<open>lng\<close>
    (\<open>None\<close> when the field is missing) and \<open>req.file\<close> (\<open>None\<close> when the request has
    no file part named \<open>image\<close>), with the fields of the file object the handler reads;
  \<^item> the local file system, a map from paths to contents, read by \<open>fs.readFileSync\<close>
    and changed by \<open>fs.unlinkSync\<close>;
  \<^item> the two external services, each a function from the arguments of the call to
    the value it resolves to or the error it throws.
  The handler's effects are the list of events it produces, in order, and the final
  file system. Console output is left out. One request is modelled on its own.
\<close>

type_synonym byte = "8 word"

type_synonym file_system = "string \<rightharpoonup> byte list"

record multer_file =
  filename :: string
  mimetype :: string
  file_size :: nat
  path :: string

record request =
  lat :: "string option"
  lng :: "string option"
  req_file :: "multer_file option"

datatype js_error = Error (message: string)

record fal_image =
  url :: "string option"

record fal_data =
  images :: "fal_image list option"
  image_single :: "fal_image option"

record fal_result =
  data :: "fal_data option"
  requestId :: string

record world =
  files :: file_system
  storage_upload :: "byte list \<Rightarrow> string \<Rightarrow> js_error + string"
  subscribe :: "string \<Rightarrow> string \<Rightarrow> string list \<Rightarrow> js_error + fal_result"

datatype response_body =
    ErrorBody string
  | SuccessBody bool string string string

datatype event =
    ReadFile string
  | StorageUpload "byte list" string
  | Subscribe string string "string list"
  | Respond nat response_body
  | Unlink string

text \<open>The error of \<open>fs.readFileSync\<close> and \<open>fs.unlinkSync\<close> on a path that does not exist.\<close>

definition enoent :: "string \<Rightarrow> string \<Rightarrow> js_error" where
  "enoent syscall p =
     Error (''ENOENT: no such file or directory, '' @ syscall @ '' '' @ [CHR 0x27] @ p @ [CHR 0x27])"

text \<open>
  \<open>result.data?.images?.[0]?.url || result.data?.image?.url\<close>: each optional chain is
  \<open>undefined\<close> as soon as a link is missing, and \<open>||\<close> takes its right operand when the
  left one is falsy, that is \<open>undefined\<close> or the empty string.
\<close>

definition images_url :: "fal_result \<Rightarrow> string option" where
  "images_url r =
     (case data r of
        None \<Rightarrow> None
      | Some d \<Rightarrow>
          (case images d of
             None \<Rightarrow> None
           | Some [] \<Rightarrow> None
           | Some (i # _) \<Rightarrow> url i))"

definition image_url :: "fal_result \<Rightarrow> string option" where
  "image_url r =
     (case data r of
        None \<Rightarrow> None
      | Some d \<Rightarrow> (case image_single d of None \<Rightarrow> None | Some i \<Rightarrow> url i))"

definition truthy :: "string option \<Rightarrow> bool" where
  "truthy v \<longleftrightarrow> (case v of None \<Rightarrow> False | Some s \<Rightarrow> s \<noteq> [])"

definition generatedImageUrl :: "fal_result \<Rightarrow> string option" where
  "generatedImageUrl r = (if truthy (images_url r) then images_url r else image_url r)"

definition prompt_of :: "string \<Rightarrow> string" where
  "prompt_of locationDMS =
     ''Create an image of '' @ locationDMS @
     '' with this person there. Use ONLY the person from the uploaded image - ignore all background, objects, and scenery from the original photo. Use good lighting and natural pose that fits the location. The person should look natural and well-integrated into the environment.''"

definition fal_endpoint :: string where
  "fal_endpoint = ''fal-ai/nano-banana-pro/edit''"

text \<open>
  The \<open>try\<close> block: the events, the file system it leaves and the exception that left
  it, if any. The \<open>return\<close> after the 400 response leaves it without one. When
  \<open>fs.unlinkSync\<close> is reached, \<open>fs.readFileSync\<close> has read the same path, so the file
  exists and the call removes it.
\<close>

definition try_block :: "world \<Rightarrow> request \<Rightarrow> event list \<times> file_system \<times> js_error option" where
  "try_block w req =
     (case req_file req of
        None \<Rightarrow> ([Respond 400 (ErrorBody ''No image file provided'')], files w, None)
      | Some f \<Rightarrow>
          (case files w (path f) of
             None \<Rightarrow> ([ReadFile (path f)], files w, Some (enoent ''open'' (path f)))
           | Some imageBuffer \<Rightarrow>
               (let ev1 = [ReadFile (path f), StorageUpload imageBuffer (mimetype f)]
                in case storage_upload w imageBuffer (mimetype f) of
                     Inl e \<Rightarrow> (ev1, files w, Some e)
                   | Inr uploadedImage \<Rightarrow>
                       (let locationDMS = convertToDMS (parseFloat (lat req)) (parseFloat (lng req));
                            prompt = prompt_of locationDMS;
                            ev2 = ev1 @ [Subscribe fal_endpoint prompt [uploadedImage]]
                        in case subscribe w fal_endpoint prompt [uploadedImage] of
                             Inl e \<Rightarrow> (ev2, files w, Some e)
                           | Inr result \<Rightarrow>
                               (if \<not> truthy (generatedImageUrl result)
                                then (ev2, files w, Some (Error ''No image generated''))
                                else
                                  (let ev3 = ev2 @
                                         [Respond 200
                                            (SuccessBody True (the (generatedImageUrl result))
                                               ''Image generated successfully with fal.ai''
                                               (requestId result)),
                                          Unlink (path f)]
                                   in ev3,
                                      (files w)(path f := None),
                                      None))))))"

text \<open>The handler: the \<open>try\<close> block and the \<open>catch\<close> clause, which answers 500.\<close>

definition generate_handler :: "world \<Rightarrow> request \<Rightarrow> event list \<times> file_system" where
  "generate_handler w req =
     (case try_block w req of
        (evs, fs', None) \<Rightarrow> (evs, fs')
      | (evs, fs', Some e) \<Rightarrow>
          (evs @ [Respond 500 (ErrorBody (''Failed to generate image. '' @ message e))], fs'))"

text \<open>What the client receives: the first response the handler sends.\<close>

definition sent_response :: "event list \<Rightarrow> (nat \<times> response_body) option" where
  "sent_response evs =
     (case filter (\<lambda>e. case e of Respond _ _ \<Rightarrow> True | _ \<Rightarrow> False) evs of
        Respond st b # _ \<Rightarrow> Some (st, b)
      | _ \<Rightarrow> None)"

definition external_calls :: "event list \<Rightarrow> event list" where
  "external_calls evs =
     filter (\<lambda>e. case e of StorageUpload _ _ \<Rightarrow> True | Subscribe _ _ _ \<Rightarrow> True | _ \<Rightarrow> False) evs"

text \<open>
  The bytes of the image a request carries: the contents of the file \<open>multer\<close> stored,
  none when the request has no file part.
\<close>

definition image_payload :: "world \<Rightarrow> request \<Rightarrow> byte list" where
  "image_payload w req =
     (case req_file req of
        None \<Rightarrow> []
      | Some f \<Rightarrow> (case files w (path f) of None \<Rightarrow> [] | Some b \<Rightarrow> b))"

text \<open>The formatter's output on two NaN arguments.\<close>

definition nan_dms :: string where
  "nan_dms =
     ''NaN'' @ degree_sign @ ''NaN'' @ prime_sign @ ''NaN'' @ double_prime_sign @ ''S, '' @
     ''NaN'' @ degree_sign @ ''NaN'' @ prime_sign @ ''NaN'' @ double_prime_sign @ ''W''"

subsection \<open>Example requests and services\<close>

definition demo_file :: multer_file where
  "demo_file =
     \<lparr>filename = ''3f2a'', mimetype = ''image/png'', file_size = 3, path = ''uploads/3f2a''\<rparr>"

definition demo_result :: fal_result where
  "demo_result =
     \<lparr>data = Some \<lparr>images = Some [\<lparr>url = Some ''https://fal.media/out.png''\<rparr>],
                    image_single = None\<rparr>,
      requestId = ''req-1''\<rparr>"

definition demo_world :: world where
  "demo_world =
     \<lparr>files = [''uploads/3f2a'' \<mapsto> [1, 2, 3]],
      storage_upload = (\<lambda>b m. Inr ''https://fal.media/in.png''),
      subscribe = (\<lambda>e p u. Inr demo_result)\<rparr>"

definition demo_request :: request where
  "demo_request = \<lparr>lat = None, lng = Some ''abc'', req_file = Some demo_file\<rparr>"

definition no_file_request :: request where
  "no_file_request = \<lparr>lat = Some ''25.1972'', lng = Some ''55.2744'', req_file = None\<rparr>"

definition empty_file_world :: world where
  "empty_file_world = demo_world\<lparr>files := [''uploads/3f2a'' \<mapsto> []]\<rparr>"

definition empty_file_request :: request where
  "empty_file_request =
     \<lparr>lat = Some ''25.1972'', lng = Some ''55.2744'',
      req_file = Some (demo_file\<lparr>file_size := 0\<rparr>)\<rparr>"

definition failing_upload_world :: world where
  "failing_upload_world =
     demo_world\<lparr>storage_upload := (\<lambda>b m. Inl (Error ''Unauthorized''))\<rparr>"

definition empty_images_result :: fal_result where
  "empty_images_result =
     \<lparr>data = Some \<lparr>images = Some [], image_single = None\<rparr>, requestId = ''req-2''\<rparr>"

definition empty_images_world :: world where
  "empty_images_world = demo_world\<lparr>subscribe := (\<lambda>e p u. Inr empty_images_result)\<rparr>"

definition single_image_result :: fal_result where
  "single_image_result =
     \<lparr>data = Some \<lparr>images = None,
                    image_single = Some \<lparr>url = Some ''https://fal.media/one.png''\<rparr>\<rparr>,
      requestId = ''req-3''\<rparr>"

definition single_image_world :: world where
  "single_image_world = demo_world\<lparr>subscribe := (\<lambda>e p u. Inr single_image_result)\<rparr>"

section \<open>The client's photo cache\<close>

text \<open>
  The part of \<open>client/src/App.tsx\<close> that keeps the uploaded photo: \<open>handleImageUpload\<close>
  stores it as a base64 data URL in \<open>localStorage\<close>, \<open>loadSavedImage\<close> and the first
  branch of \<open>handleGenerate\<close> turn a data URL back into a \<open>File\<close>. The browser
  functions they call are modelled from their standards: \<open>FileReader.readAsDataURL\<close>
  (File API, base64 of RFC 4648), \<open>fetch\<close> of a \<open>data:\<close> URL (the data URL processor
  and the forgiving base64 decoder of the Fetch and Infra standards) and
  \<open>localStorage\<close>. A string is a sequence of bytes here as well.
\<close>

subsection \<open>Base64\<close>

definition b64_chars :: string where
  "b64_chars = ''ABCDEFGHIJKLMNOPQRSTUVWXYZabcdefghijklmnopqrstuvwxyz0123456789+/''"

definition enc_char :: "nat \<Rightarrow> char" where
  "enc_char n = b64_chars ! n"

definition b64_index :: "char \<Rightarrow> nat option" where
  "b64_index c = map_of (zip b64_chars [0..<64]) c"

fun base64_encode :: "byte list \<Rightarrow> string" where
  "base64_encode [] = []"
| "base64_encode [a] =
     [enc_char (unat a div 4), enc_char (unat a mod 4 * 16), CHR ''='', CHR ''='']"
| "base64_encode [a, b] =
     [enc_char (unat a div 4), enc_char (unat a mod 4 * 16 + unat b div 16),
      enc_char (unat b mod 16 * 4), CHR ''='']"
| "base64_encode (a # b # c # rest) =
     [enc_char (unat a div 4), enc_char (unat a mod 4 * 16 + unat b div 16),
      enc_char (unat b mod 16 * 4 + unat c div 64), enc_char (unat c mod 64)]
     @ base64_encode rest"

text \<open>
  Two auxiliary functions, which no code of the client corresponds to: the characters
  of the alphabet in an encoding, and its padding. The lemmas on the decoder are
  stated with them.
\<close>

fun b64_data :: "byte list \<Rightarrow> string" where
  "b64_data [] = []"
| "b64_data [a] = [enc_char (unat a div 4), enc_char (unat a mod 4 * 16)]"
| "b64_data [a, b] =
     [enc_char (unat a div 4), enc_char (unat a mod 4 * 16 + unat b div 16),
      enc_char (unat b mod 16 * 4)]"
| "b64_data (a # b # c # rest) =
     [enc_char (unat a div 4), enc_char (unat a mod 4 * 16 + unat b div 16),
      enc_char (unat b mod 16 * 4 + unat c div 64), enc_char (unat c mod 64)]
     @ b64_data rest"

fun b64_pad :: "byte list \<Rightarrow> string" where
  "b64_pad [] = []"
| "b64_pad [a] = ''==''"
| "b64_pad [a, b] = ''=''"
| "b64_pad (a # b # c # rest) = b64_pad rest"

text \<open>
  The forgiving decoder: ASCII white space is removed; when the length is a multiple
  of four, one or two trailing \<open>=\<close> are removed; a length of one modulo four or a
  character outside the alphabet is a failure; the sextets are joined, and the bits
  left over at the end are dropped.
\<close>

definition ascii_whitespace :: "char \<Rightarrow> bool" where
  "ascii_whitespace c \<longleftrightarrow> c \<in> {CHR 0x09, CHR 0x0A, CHR 0x0C, CHR 0x0D, CHR 0x20}"

definition strip_padding :: "string \<Rightarrow> string" where
  "strip_padding s =
     (if length s mod 4 = 0
      then (if 2 \<le> length s \<and> drop (length s - 2) s = ''==''
            then take (length s - 2) s
            else if 1 \<le> length s \<and> drop (length s - 1) s = ''=''
            then take (length s - 1) s
            else s)
      else s)"

fun decode_sextets :: "nat list \<Rightarrow> byte list option" where
  "decode_sextets [] = Some []"
| "decode_sextets [w] = None"
| "decode_sextets [w, x] = Some [of_nat (w * 4 + x div 16)]"
| "decode_sextets [w, x, y] =
     Some [of_nat (w * 4 + x div 16), of_nat (x mod 16 * 16 + y div 4)]"
| "decode_sextets (w # x # y # z # rest) =
     map_option
       (\<lambda>bs. [of_nat (w * 4 + x div 16), of_nat (x mod 16 * 16 + y div 4),
              of_nat (y mod 4 * 64 + z)] @ bs)
       (decode_sextets rest)"

definition forgiving_base64_decode :: "string \<Rightarrow> byte list option" where
  "forgiving_base64_decode s =
     (let d = strip_padding (filter (\<lambda>c. \<not> ascii_whitespace c) s)
      in if length d mod 4 = 1 then None
         else if list_ex (\<lambda>c. b64_index c = None) d then None
         else decode_sextets (map (\<lambda>c. the (b64_index c)) d))"

subsection \<open>Data URLs\<close>

definition hex_value :: "char \<Rightarrow> nat option" where
  "hex_value c =
     (let n = (of_char c :: nat)
      in if 48 \<le> n \<and> n \<le> 57 then Some (n - 48)
         else if 65 \<le> n \<and> n \<le> 70 then Some (n - 55)
         else if 97 \<le> n \<and> n \<le> 102 then Some (n - 87)
         else None)"

fun percent_decode :: "string \<Rightarrow> string" where
  "percent_decode (c # h # l # rest) =
     (if c = CHR ''%'' \<and> hex_value h \<noteq> None \<and> hex_value l \<noteq> None
      then char_of (16 * the (hex_value h) + the (hex_value l)) # percent_decode rest
      else c # percent_decode (h # l # rest))"
| "percent_decode s = s"

definition strip_whitespace :: "string \<Rightarrow> string" where
  "strip_whitespace s = rev (dropWhile ascii_whitespace (rev (dropWhile ascii_whitespace s)))"

definition ascii_lower :: "char \<Rightarrow> char" where
  "ascii_lower c =
     (if 65 \<le> (of_char c :: nat) \<and> (of_char c :: nat) \<le> 90
      then char_of ((of_char c :: nat) + 32) else c)"

text \<open>
  The media type part announces base64 when it ends with \<open>;\<close>, any number of spaces
  and \<open>base64\<close> in any letter case.
\<close>

definition ends_with_base64 :: "string \<Rightarrow> bool" where
  "ends_with_base64 m =
     (let r = rev m
      in map ascii_lower (take 6 r) = rev ''base64'' \<and>
         (case dropWhile (\<lambda>c. c = CHR '' '') (drop 6 r) of
            [] \<Rightarrow> False
          | c # _ \<Rightarrow> c = CHR '';''))"

definition data_url_process :: "string \<Rightarrow> byte list option" where
  "data_url_process input =
     (let mimeType = strip_whitespace (takeWhile (\<lambda>c. c \<noteq> CHR '','') input)
      in case dropWhile (\<lambda>c. c \<noteq> CHR '','') input of
           [] \<Rightarrow> None
         | _ # encodedBody \<Rightarrow>
             (let body = percent_decode encodedBody
              in if ends_with_base64 mimeType then forgiving_base64_decode body
                 else Some (map of_char body)))"

text \<open>
  \<open>fetch(url)\<close> followed by \<open>res.blob()\<close>: the bytes of the response, \<open>None\<close> when
  \<open>fetch\<close> rejects. A \<open>data:\<close> URL, the scheme in any letter case, is processed
  locally, its fragment dropped; any other URL is answered by the network, a
  parameter.
\<close>

definition fetch_blob :: "(string \<Rightarrow> byte list option) \<Rightarrow> string \<Rightarrow> byte list option" where
  "fetch_blob net u =
     (if map ascii_lower (take 5 u) = ''data:''
      then data_url_process (takeWhile (\<lambda>c. c \<noteq> CHR ''#'') (drop 5 u))
      else net u)"

subsection \<open>Files, local storage and the component's state\<close>

record js_file =
  name :: string
  media_type :: string
  content :: "byte list"
  readable :: bool

text \<open>
  The data URL of a file: its media type, \<open>application/octet-stream\<close> when the file
  has none, and the base64 encoding of its bytes.
\<close>

definition data_url_of :: "js_file \<Rightarrow> string" where
  "data_url_of f =
     ''data:'' @ (if media_type f = [] then ''application/octet-stream'' else media_type f)
       @ '';base64,'' @ base64_encode (content f)"

text \<open>\<open>reader.result\<close> after \<open>readAsDataURL\<close>: the data URL, \<open>None\<close> (null) when the read failed.\<close>

definition readAsDataURL :: "js_file \<Rightarrow> string option" where
  "readAsDataURL f = (if readable f then Some (data_url_of f) else None)"

text \<open>
  \<open>localStorage\<close>: the items, and the length of the longest value the browser accepts
  before \<open>setItem\<close> throws \<open>QuotaExceededError\<close>.
\<close>

record local_storage =
  items :: "string \<rightharpoonup> string"
  capacity :: nat

definition setItem :: "local_storage \<Rightarrow> string \<Rightarrow> string \<Rightarrow> local_storage option" where
  "setItem ls k v =
     (if length v \<le> capacity ls then Some (ls\<lparr>items := (items ls)(k \<mapsto> v)\<rparr>) else None)"

definition getItem :: "local_storage \<Rightarrow> string \<Rightarrow> string option" where
  "getItem ls k = items ls k"

definition removeItem :: "local_storage \<Rightarrow> string \<Rightarrow> local_storage" where
  "removeItem ls k = ls\<lparr>items := (items ls)(k := None)\<rparr>"

definition storage_key :: string where
  "storage_key = ''goplaces_uploaded_image''"

record app_state =
  selectedLocation :: "(js_number \<times> js_number) option"
  imageFile :: "js_file option"
  imagePreview :: "string option"
  error :: "string option"
  loading :: bool
  localStorage :: local_storage

definition recreated_file :: "byte list \<Rightarrow> js_file" where
  "recreated_file blob =
     \<lparr>name = ''uploaded-image.jpg'', media_type = ''image/jpeg'', content = blob,
      readable = True\<rparr>"

text \<open>
  \<open>handleImageUpload\<close>, with the \<open>onloadend\<close> callback run to its end. A read that
  failed leaves \<open>reader.result\<close> null, which \<open>setItem\<close> stores as the string \<open>null\<close>; when
  \<open>setItem\<close> throws, the preview has been set and the storage is unchanged.
\<close>

definition handleImageUpload :: "app_state \<Rightarrow> js_file option \<Rightarrow> app_state" where
  "handleImageUpload st files0 =
     (case files0 of
        None \<Rightarrow> st
      | Some f \<Rightarrow>
          (let base64String = readAsDataURL f;
               st1 = st\<lparr>imageFile := Some f, imagePreview := base64String\<rparr>
           in case setItem (localStorage st1) storage_key
                     (case base64String of None \<Rightarrow> ''null'' | Some s \<Rightarrow> s) of
                None \<Rightarrow> st1
              | Some ls \<Rightarrow> st1\<lparr>localStorage := ls\<rparr>))"

text \<open>\<open>loadSavedImage\<close>, run once when the component is mounted.\<close>

definition loadSavedImage :: "(string \<Rightarrow> byte list option) \<Rightarrow> app_state \<Rightarrow> app_state" where
  "loadSavedImage net st =
     (case getItem (localStorage st) storage_key of
        None \<Rightarrow> st
      | Some savedImage \<Rightarrow>
          if savedImage = [] then st
          else
            (let st1 = st\<lparr>imagePreview := Some savedImage\<rparr>
             in case fetch_blob net savedImage of
                  Some blob \<Rightarrow> st1\<lparr>imageFile := Some (recreated_file blob)\<rparr>
                | None \<Rightarrow>
                    st1\<lparr>localStorage := removeItem (localStorage st1) storage_key,
                        imagePreview := None\<rparr>))"

text \<open>
  One call of \<open>handleGenerate\<close>, up to the request it sends. The call that
  \<open>setTimeout\<close> schedules after the file has been recreated is a further call.
\<close>

datatype generate_outcome =
    Returned
  | RetryScheduled
  | Posted string string js_file

definition handleGenerate ::
    "(string \<Rightarrow> byte list option) \<Rightarrow> app_state \<Rightarrow> app_state \<times> generate_outcome" where
  "handleGenerate net st =
     (case selectedLocation st of
        None \<Rightarrow> (st, Returned)
      | Some loc \<Rightarrow>
          (case (imageFile st, imagePreview st) of
             (None, Some preview) \<Rightarrow>
               if preview = [] then (st, Returned)
               else
                 (case fetch_blob net preview of
                    Some blob \<Rightarrow> (st\<lparr>imageFile := Some (recreated_file blob)\<rparr>, RetryScheduled)
                  | None \<Rightarrow>
                      (st\<lparr>error := Some ''Error loading image. Please re-upload.''\<rparr>, Returned))
           | (None, None) \<Rightarrow> (st, Returned)
           | (Some f, _) \<Rightarrow>
               (st\<lparr>loading := True, error := None\<rparr>,
                Posted (ToString (fst loc)) (ToString (snd loc)) f)))"

text \<open>\<open>resetSelection\<close> clears the location and the file and keeps the preview.\<close>

definition resetSelection :: "app_state \<Rightarrow> app_state" where
  "resetSelection st = st\<lparr>selectedLocation := None, imageFile := None\<rparr>"

text \<open>The state of the component when it is mounted, over the browser's storage.\<close>

definition mounted :: "local_storage \<Rightarrow> app_state" where
  "mounted ls =
     \<lparr>selectedLocation = None, imageFile = None, imagePreview = None, error = None,
      loading = False, localStorage = ls\<rparr>"

subsection \<open>An example upload\<close>

definition png_file :: js_file where
  "png_file =
     \<lparr>name = ''me.png'', media_type = ''image/png'', content = [0x89, 0x50, 0x4E, 0x47],
      readable = True\<rparr>"

definition roomy_storage :: local_storage where
  "roomy_storage = \<lparr>items = Map.empty, capacity = 5000000\<rparr>"

definition offline :: "string \<Rightarrow> byte list option" where
  "offline u = None"

text \<open>
  A storage that takes values of at most 28 characters, a smaller file uploaded
  earlier, and a file whose media type holds a \<open>#\<close>.
\<close>

definition tight_storage :: local_storage where
  "tight_storage = \<lparr>items = Map.empty, capacity = 28\<rparr>"

definition older_file :: js_file where
  "older_file =
     \<lparr>name = ''old.png'', media_type = ''image/png'', content = [0x01], readable = True\<rparr>"

definition odd_type_file :: js_file where
  "odd_type_file =
     \<lparr>name = ''me.x'', media_type = ''image/x#y'', content = [0x89, 0x50, 0x4E, 0x47],
      readable = True\<rparr>"

section \<open>Properties of binary64 rounding\<close>

text \<open>
  The facts about \<open>round64\<close> that the formatter's properties rest on: the binade of a
  rational is the one \<open>ilog\<close> computes; a rational is a binary64 value exactly when it
  is a multiple of its unit in the last place below \<open>2 ^ 1024\<close>; the result of a
  rounding is a binary64 value; the fractional part of a non-negative binary64 value is
  one, so that \<open>x - Math.floor(x)\<close> is exact; a rounding does not cross a binary64
  value. The last lemmas evaluate roundings of numerals by integer division.
\<close>

lemma digit_count_nonneg: "0 \<le> digit_count b x"
proof (induction b x rule: digit_count.induct)
  case (1 b x)
  then show ?case by (subst digit_count.simps) auto
qed

lemma digit_count_pos: "1 < b \<Longrightarrow> 0 < x \<Longrightarrow> 1 \<le> digit_count b x"
  using digit_count_nonneg [of b "x div b"] by (subst digit_count.simps) simp

lemma digit_count_bounds:
  "1 < b \<Longrightarrow> 0 < x \<Longrightarrow>
     b ^ nat (digit_count b x - 1) \<le> x \<and> x < b ^ nat (digit_count b x)"
proof (induction b x rule: digit_count.induct)
  case (1 b x)
  have md: "0 \<le> x mod b" "x mod b < b" "x = b * (x div b) + x mod b"
    using 1(2) by simp_all
  show ?case
  proof (cases "x div b = 0")
    case True
    with md have "x < b"
      by simp
    moreover have "digit_count b x = 1"
      using 1(2,3) True by (simp add: digit_count.simps [of b x] digit_count.simps [of b 0])
    ultimately show ?thesis using 1(3) by simp
  next
    case False
    with 1(2,3) have pos: "0 < x div b"
      by (metis int_one_le_iff_zero_less nless_le pos_imp_zdiv_pos_iff
          verit_comp_simplify1(3) zdiv_eq_0_iff)
    let ?n = "digit_count b (x div b)"
    have n1: "1 \<le> ?n" using pos 1(2) digit_count_pos by blast
    have ih: "b ^ nat (?n - 1) \<le> x div b" "x div b < b ^ nat ?n"
      using 1(1) 1(2,3) pos by auto
    have dc: "digit_count b x = ?n + 1"
      using 1(2,3) by (simp add: digit_count.simps [of b x])
    have "nat ?n = Suc (nat (?n - 1))"
      using n1 by simp
    then have p: "b ^ nat ?n = b * b ^ nat (?n - 1)"
      by (metis power_Suc)
    have "b * b ^ nat (?n - 1) \<le> b * (x div b)"
      using ih(1) 1(2) by simp
    then have lo: "b ^ nat ?n \<le> x"
      using md p by linarith
    have "x div b + 1 \<le> b ^ nat ?n"
      using ih(2) by simp
    then have "b * (x div b + 1) \<le> b * b ^ nat ?n"
      using 1(2) by simp
    moreover have "b * (x div b + 1) = b * (x div b) + b"
      by (simp add: algebra_simps)
    ultimately have hi: "x < b * b ^ nat ?n"
      using md by linarith
    have "nat (?n + 1) = Suc (nat ?n)"
      using n1 by simp
    then have "b ^ nat (?n + 1) = b * b ^ nat ?n"
      by (metis power_Suc)
    with lo hi dc show ?thesis
      by simp
  qed
qed

lemma powi_less_iff: "1 < (c::rat) \<Longrightarrow> c powi m < c powi n \<longleftrightarrow> m < n"
proof
  assume c: "1 < c" and "c powi m < c powi n"
  then show "m < n"
    using power_int_increasing [of n m c] by (cases "m < n") auto
next
  assume "1 < c" "m < n"
  then show "c powi m < c powi n"
    by (simp add: power_int_strict_increasing)
qed

lemma pow2_less_iff: "(2::rat) powi m < 2 powi n \<longleftrightarrow> m < n"
  by (rule powi_less_iff) simp

lemma pow2_le_iff: "(2::rat) powi m \<le> 2 powi n \<longleftrightarrow> m \<le> n"
  using pow2_less_iff [of n m] by (auto simp: not_less [symmetric])

lemma rat_digit_count_bounds:
  assumes "1 < b" "0 < x"
  shows "(of_int b :: rat) powi (digit_count b x - 1) \<le> of_int x"
    "(of_int x :: rat) < of_int b powi digit_count b x"
proof -
  from digit_count_bounds [of b x] assms
  have a: "b ^ nat (digit_count b x - 1) \<le> x" "x < b ^ nat (digit_count b x)"
    by simp_all
  have n: "1 \<le> digit_count b x"
    using assms by (simp add: digit_count_pos)
  have "(of_int (b ^ nat (digit_count b x - 1)) :: rat) \<le> of_int x"
    using a(1) by (simp only: of_int_le_iff)
  then show "(of_int b :: rat) powi (digit_count b x - 1) \<le> of_int x"
    using n by (simp add: power_int_def)
  have "(of_int x :: rat) < of_int (b ^ nat (digit_count b x))"
    using a(2) by (simp only: of_int_less_iff)
  then show "(of_int x :: rat) < of_int b powi digit_count b x"
    using n by (simp add: power_int_def)
qed

lemma ilog_bounds:
  assumes "1 < b" "q \<noteq> 0"
  shows "of_int b powi ilog b q \<le> \<bar>q\<bar>" "\<bar>q\<bar> < of_int b powi (ilog b q + 1)"
proof -
  let ?c = "of_int b :: rat"
  have c: "0 < ?c" "?c \<noteq> 0" using assms(1) by simp_all
  obtain p d where pd: "quotient_of \<bar>q\<bar> = (p, d)"
    by (cases "quotient_of \<bar>q\<bar>")
  then have d: "0 < d" and q: "\<bar>q\<bar> = of_int p / of_int d"
    using quotient_of_denom_pos quotient_of_div by blast+
  have p: "0 < p"
  proof -
    have "0 < \<bar>q\<bar>" using assms by simp
    then show ?thesis using d by (simp add: q zero_less_divide_iff)
  qed
  let ?e = "digit_count b p - digit_count b d"
  note bp = rat_digit_count_bounds [OF assms(1) p] and bd = rat_digit_count_bounds [OF assms(1) d]
  have dpos: "(0::rat) < of_int d" using d by simp
  have ppos: "(0::rat) < of_int p" using p by simp
  have lo: "?c powi (?e - 1) \<le> \<bar>q\<bar>"
  proof -
    have "?c powi (?e - 1) = ?c powi (digit_count b p - 1) / ?c powi digit_count b d"
      using c by (simp add: power_int_diff)
    also have "\<dots> \<le> of_int p / ?c powi digit_count b d"
      using bp(1) c by (simp add: divide_right_mono)
    also have "\<dots> \<le> of_int p / of_int d"
      using bd(2) ppos dpos by (simp add: frac_le)
    finally show ?thesis using q by simp
  qed
  have hi: "\<bar>q\<bar> < ?c powi (?e + 1)"
  proof -
    have "of_int p / of_int d < ?c powi digit_count b p / of_int d"
      using bp(2) dpos by (simp add: divide_strict_right_mono)
    also have "\<dots> \<le> ?c powi digit_count b p / ?c powi (digit_count b d - 1)"
      using bd(1) c by (simp add: frac_le)
    also have "\<dots> = ?c powi (?e + 1)"
      using c by (simp add: power_int_diff power_int_add)
    finally show ?thesis using q by simp
  qed
  have il: "ilog b q = (if ?c powi ?e \<le> \<bar>q\<bar> then ?e else ?e - 1)"
    by (simp add: ilog_def pd)
  show "?c powi ilog b q \<le> \<bar>q\<bar>"
    using il lo by auto
  show "\<bar>q\<bar> < ?c powi (ilog b q + 1)"
    using il hi by (auto simp: not_le)
qed

lemma ilog_unique:
  assumes "1 < b" "of_int b powi e \<le> \<bar>q\<bar>" "\<bar>q\<bar> < of_int b powi (e + 1)"
  shows "ilog b q = e"
proof -
  let ?c = "of_int b :: rat"
  have c: "1 < ?c" using assms(1) by simp
  have "0 < ?c powi e" using c by simp
  then have "q \<noteq> 0" using assms(2) by auto
  note b = ilog_bounds [OF assms(1) this]
  have "?c powi e < ?c powi (ilog b q + 1)"
    using assms(2) b(2) by linarith
  then have 1: "e < ilog b q + 1"
    by (simp only: powi_less_iff [OF c])
  have "?c powi ilog b q < ?c powi (e + 1)"
    using assms(3) b(1) by linarith
  then have "ilog b q < e + 1"
    by (simp only: powi_less_iff [OF c])
  with 1 show ?thesis by simp
qed

lemma ilog2_bounds:
  assumes "q \<noteq> 0"
  shows "2 powi ilog 2 q \<le> \<bar>q\<bar>" "\<bar>q\<bar> < 2 powi (ilog 2 q + 1)"
  using ilog_bounds [of 2 q] assms by simp_all

lemma ilog2_unique:
  assumes "2 powi e \<le> \<bar>q\<bar>" "\<bar>q\<bar> < 2 powi (e + 1)"
  shows "ilog 2 q = e"
  using ilog_unique [of 2 e q] assms by simp

lemma ilog10_unique:
  assumes "10 powi e \<le> \<bar>q\<bar>" "\<bar>q\<bar> < 10 powi (e + 1)"
  shows "ilog 10 q = e"
  using ilog_unique [of 10 e q] assms by simp


lemma rhe_of_int: "round_half_even (of_int n) = n"
  by (simp add: round_half_even_def)

lemma rhe_le: "x \<le> of_int N \<Longrightarrow> round_half_even x \<le> N"
proof -
  assume a: "x \<le> of_int N"
  have f: "\<lfloor>x\<rfloor> \<le> N" using a by (simp add: floor_le_iff) 
  show ?thesis
  proof (cases "x = of_int \<lfloor>x\<rfloor>")
    case True
    then show ?thesis using f by (simp add: round_half_even_def Let_def)
  next
    case False
    then have "of_int \<lfloor>x\<rfloor> < x" by (metis of_int_floor_le order_le_less)
    then have "of_int \<lfloor>x\<rfloor> < (of_int N :: rat)" using a by linarith
    then have "\<lfloor>x\<rfloor> + 1 \<le> N" by simp
    then show ?thesis using f by (simp add: round_half_even_def Let_def)
  qed
qed

lemma rhe_ge: "of_int N \<le> x \<Longrightarrow> N \<le> round_half_even x"
proof -
  assume "of_int N \<le> x"
  then have "N \<le> \<lfloor>x\<rfloor>" by (simp add: le_floor_iff)
  then show ?thesis by (simp add: round_half_even_def Let_def)
qed

lemma rhe_upper: "of_int (round_half_even x) \<le> x + 1 / 2"
proof -
  have a: "of_int \<lfloor>x\<rfloor> \<le> x" by (rule of_int_floor_le)
  show ?thesis
  proof (cases "x - of_int \<lfloor>x\<rfloor> < 1 / 2")
    case True
    then have "round_half_even x = \<lfloor>x\<rfloor>" by (simp add: round_half_even_def Let_def)
    then show ?thesis using a by linarith
  next
    case False
    have "round_half_even x \<le> \<lfloor>x\<rfloor> + 1" by (simp add: round_half_even_def Let_def)
    then have "(of_int (round_half_even x) :: rat) \<le> of_int (\<lfloor>x\<rfloor> + 1)"
      by (simp only: of_int_le_iff)
    then show ?thesis using False by simp
  qed
qed

lemma rhe_fix: "x \<in> \<int> \<Longrightarrow> of_int (round_half_even x) = x"
  by (auto elim!: Ints_cases simp: rhe_of_int)

lemma ulp64_pos: "0 < ulp64 q"
  by (simp add: ulp64_def uexp_def)

lemma pow2_Ints: "0 \<le> n \<Longrightarrow> (2::rat) powi n \<in> \<int>"
  by (simp add: power_int_def)

lemma is_double_0: "is_double 0"
  by (simp add: is_double_def round64_def)

lemma is_doubleI:
  assumes "q / ulp64 q \<in> \<int>" "\<bar>q\<bar> < 2 ^ 1024"
  shows "is_double q"
proof (cases "q = 0")
  case True
  then show ?thesis by (simp add: is_double_0)
next
  case False
  have "of_int (round_half_even (q / ulp64 q)) * ulp64 q = q"
    using rhe_fix [OF assms(1)] ulp64_pos [of q] by simp
  then show ?thesis
    using False assms(2) by (simp add: is_double_def round64_def Let_def not_le)
qed

lemma is_doubleD:
  assumes "is_double q"
  shows "q / ulp64 q \<in> \<int>" "\<bar>q\<bar> < 2 ^ 1024"
proof -
  show "q / ulp64 q \<in> \<int>"
  proof (cases "q = 0")
    case True then show ?thesis by simp
  next
    case False
    with assms have "of_int (round_half_even (q / ulp64 q)) * ulp64 q = q"
      by (simp add: is_double_def round64_def Let_def split: if_splits)
    then have "q / ulp64 q = of_int (round_half_even (q / ulp64 q))"
      using ulp64_pos [of q] by (simp add: field_simps)
    then show ?thesis by (metis Ints_of_int)
  qed
  show "\<bar>q\<bar> < 2 ^ 1024"
  proof (cases "q = 0")
    case True then show ?thesis by simp
  next
    case False
    with assms show ?thesis
      by (simp add: is_double_def round64_def Let_def split: if_splits)
  qed
qed

lemma ilog2_mono:
  assumes "x \<noteq> 0" "\<bar>x\<bar> \<le> \<bar>y\<bar>"
  shows "ilog 2 x \<le> ilog 2 y"
proof -
  have y: "y \<noteq> 0" using assms by auto
  have "(2::rat) powi ilog 2 x < 2 powi (ilog 2 y + 1)"
    using ilog2_bounds(1) [OF assms(1)] ilog2_bounds(2) [OF y] assms(2) by linarith
  then show ?thesis by (simp only: pow2_less_iff)
qed

lemma ulp64_uexp: "ulp64 q = 2 powi uexp q"
  by (simp add: ulp64_def)

lemma grid_coarser:
  assumes "r = of_int n * 2 powi k" "uexp r \<le> k"
  shows "r / ulp64 r \<in> \<int>"
proof -
  have "r / ulp64 r = of_int n * 2 powi (k - uexp r)"
    by (simp add: assms(1) ulp64_uexp power_int_diff)
  moreover have "(2::rat) powi (k - uexp r) \<in> \<int>"
    using assms(2) by (simp add: pow2_Ints)
  ultimately show ?thesis by simp
qed

lemma is_double_frac:
  assumes "is_double a" "0 \<le> a"
  shows "is_double (a - of_int \<lfloor>a\<rfloor>)"
proof (cases "a - of_int \<lfloor>a\<rfloor> = 0")
  case True
  then show ?thesis by (simp add: is_double_0)
next
  case False
  let ?f = "a - of_int \<lfloor>a\<rfloor>"
  have f: "0 < ?f" "?f < 1" "?f \<le> a"
    using False assms(2) by (auto simp: order_le_less) linarith+
  have a0: "a \<noteq> 0" using f by auto
  obtain m where m: "a / ulp64 a = of_int m"
    using is_doubleD(1) [OF assms(1)] by (auto elim: Ints_cases)
  have am: "a = of_int m * 2 powi uexp a"
    using m ulp64_pos [of a] by (simp add: ulp64_uexp field_simps)
  have "ilog 2 ?f \<le> ilog 2 a"
    using f assms(2) by (intro ilog2_mono) auto
  then have ue: "uexp ?f \<le> uexp a" by (simp add: uexp_def)
  have "(2::rat) powi ilog 2 ?f < 2 powi 0"
    using ilog2_bounds(1) [OF False] f by simp
  then have "ilog 2 ?f < 0" by (simp only: pow2_less_iff)
  then have un: "uexp ?f \<le> 0" by (simp add: uexp_def)
  have "?f / ulp64 ?f = of_int m * 2 powi (uexp a - uexp ?f) - of_int \<lfloor>a\<rfloor> * 2 powi (- uexp ?f)"
    by (subst (1) am) (simp add: ulp64_uexp power_int_diff power_int_minus field_simps)
  moreover have "(2::rat) powi (uexp a - uexp ?f) \<in> \<int>" "(2::rat) powi (- uexp ?f) \<in> \<int>"
    using ue un by (simp_all add: pow2_Ints)
  ultimately have "?f / ulp64 ?f \<in> \<int>" by simp
  moreover have "\<bar>?f\<bar> < 2 ^ 1024"
  proof -
    have "(1::rat) \<le> 2 ^ 1024" by (rule one_le_power) simp
    then show ?thesis using f by linarith
  qed
  ultimately show ?thesis by (rule is_doubleI)
qed


lemma round64_nonzero:
  assumes "q \<noteq> 0"
  shows "round64 q =
     (if 2 ^ 1024 \<le> \<bar>of_int (round_half_even (q / ulp64 q)) * ulp64 q\<bar>
      then Infinity (of_int (round_half_even (q / ulp64 q)) * ulp64 q < 0)
      else Fin (of_int (round_half_even (q / ulp64 q)) * ulp64 q))"
  using assms by (simp add: round64_def Let_def)

lemma uexp_ge: "- 1074 \<le> uexp q"
  by (simp add: uexp_def)

lemma scaled_lt_2_53:
  assumes "q \<noteq> 0"
  shows "\<bar>q / ulp64 q\<bar> < 2 ^ 53"
proof -
  let ?E = "max (ilog 2 q) (- 1022)"
  have "\<bar>q\<bar> < 2 powi (ilog 2 q + 1)" by (rule ilog2_bounds(2) [OF assms])
  also have "\<dots> \<le> 2 powi (?E + 1)" by (simp add: pow2_le_iff)
  finally have "\<bar>q\<bar> < 2 powi (?E + 1)" .
  then have "\<bar>q\<bar> / 2 powi uexp q < 2 powi (?E + 1) / 2 powi uexp q"
    by (simp add: divide_strict_right_mono)
  also have "\<dots> = 2 powi 53"
    by (simp add: uexp_def flip: power_int_diff)
  finally show ?thesis by (simp add: ulp64_uexp abs_power_int_minus power_int_abs)
qed

lemma pow2_add: "(2::rat) powi a * 2 powi b = 2 powi (a + b)"
  by (simp add: power_int_add)

lemma round64_double:
  assumes "round64 q = Fin r"
  shows "is_double r"
proof (cases "q = 0 \<or> r = 0")
  case True
  then show ?thesis using assms by (auto simp: round64_def is_double_0)
next
  case False
  then have q: "q \<noteq> 0" and r0: "r \<noteq> 0" by auto
  let ?n = "round_half_even (q / ulp64 q)"
  let ?k = "uexp q"
  let ?E = "max (ilog 2 q) (- 1022)"
  have r: "r = of_int ?n * 2 powi ?k" and fin: "\<bar>r\<bar> < 2 ^ 1024"
    using assms by (auto simp: round64_nonzero [OF q] ulp64_uexp split: if_splits)
  have k: "?k = ?E - 52" by (simp add: uexp_def)
  have s: "\<bar>q / ulp64 q\<bar> < 2 ^ 53" by (rule scaled_lt_2_53 [OF q])
  have c: "(of_int (2 ^ 53) :: rat) = 2 ^ 53" "(of_int (- (2 ^ 53)) :: rat) = - (2 ^ 53)"
    by simp_all
  have "q / ulp64 q \<le> of_int (2 ^ 53)" "of_int (- (2 ^ 53)) \<le> q / ulp64 q"
    unfolding c using s by linarith+
  then have n: "?n \<le> 2 ^ 53" "- (2 ^ 53) \<le> ?n"
    using rhe_le rhe_ge by blast+
  have absr: "\<bar>r\<bar> = of_int \<bar>?n\<bar> * 2 powi ?k"
    by (simp add: r abs_mult)
  have e: "53 + ?k = ?E + 1" by (simp add: k)
  have p53: "(2::rat) powi 53 * 2 powi ?k = 2 powi (?E + 1)"
    by (simp only: pow2_add e)
  show ?thesis
  proof (cases "\<bar>?n\<bar> = 2 ^ 53")
    case True
    then have "\<bar>r\<bar> = 2 powi 53 * 2 powi ?k" by (simp add: absr)
    also have "\<dots> = 2 powi (?E + 1)" by (rule p53)
    finally have ar: "\<bar>r\<bar> = 2 powi (?E + 1)" .
    have "ilog 2 r = ?E + 1"
      by (rule ilog2_unique) (simp_all add: ar pow2_less_iff)
    then have ur: "uexp r = ?k + 1" by (simp add: uexp_def)
    have "even \<bar>?n\<bar>" by (simp only: True) simp
    then have "even ?n" by simp
    then have ev: "?n = 2 * (?n div 2)" by simp
    have "r = of_int (?n div 2) * 2 powi (?k + 1)"
      by (subst r, subst ev) (simp add: power_int_add)
    then have "r / ulp64 r \<in> \<int>" using ur by (intro grid_coarser) auto
    then show ?thesis using fin by (rule is_doubleI)
  next
    case False
    with n have "\<bar>?n\<bar> \<le> 2 ^ 53 - 1" by simp
    then have "(of_int \<bar>?n\<bar> :: rat) \<le> of_int (2 ^ 53 - 1)" by (simp only: of_int_le_iff)
    then have "(of_int \<bar>?n\<bar> :: rat) < 2 powi 53" by simp
    then have "\<bar>r\<bar> < 2 powi 53 * 2 powi ?k" by (simp add: absr)
    also have "\<dots> = 2 powi (?E + 1)" by (rule p53)
    finally have "\<bar>r\<bar> < 2 powi (?E + 1)" .
    then have "(2::rat) powi ilog 2 r < 2 powi (?E + 1)"
      using ilog2_bounds(1) [OF r0] by linarith
    then have "ilog 2 r < ?E + 1" by (simp only: pow2_less_iff)
    then have "uexp r \<le> ?k" by (simp add: uexp_def)
    with r have "r / ulp64 r \<in> \<int>" by (rule grid_coarser)
    then show ?thesis using fin by (rule is_doubleI)
  qed
qed

lemma round64_bounded:
  assumes "is_double B" "0 \<le> q" "q \<le> B"
  shows "\<exists>r. round64 q = Fin r \<and> 0 \<le> r \<and> r \<le> B"
proof (cases "q = 0")
  case True
  then show ?thesis using assms by (simp add: round64_def)
next
  case False
  then have qp: "0 < q" using assms(2) by simp
  then have Bp: "0 < B" using assms(3) by simp
  let ?n = "round_half_even (q / ulp64 q)"
  obtain m where m: "B / ulp64 B = of_int m"
    using is_doubleD(1) [OF assms(1)] by (auto elim: Ints_cases)
  have "ilog 2 q \<le> ilog 2 B"
    using False assms by (intro ilog2_mono) auto
  then have ue: "uexp q \<le> uexp B" by (simp add: uexp_def)
  have Bm: "B = of_int m * 2 powi uexp B"
    using m ulp64_pos [of B] by (simp add: ulp64_uexp field_simps)
  have "B / ulp64 q = of_int m * 2 powi (uexp B - uexp q)"
    by (subst Bm) (simp add: ulp64_uexp power_int_diff)
  moreover have "(2::rat) powi (uexp B - uexp q) \<in> \<int>"
    using ue by (simp add: pow2_Ints)
  ultimately have "B / ulp64 q \<in> \<int>" by simp
  then obtain N where N: "B / ulp64 q = of_int N" by (auto elim: Ints_cases)
  have "q / ulp64 q \<le> B / ulp64 q"
    using assms(3) ulp64_pos [of q] by (simp add: divide_right_mono)
  then have nN: "?n \<le> N" using N rhe_le by simp
  have "of_int 0 \<le> q / ulp64 q" using qp ulp64_pos [of q] by simp
  then have n0: "0 \<le> ?n" by (rule rhe_ge)
  let ?r = "of_int ?n * ulp64 q"
  have "?r \<le> of_int N * ulp64 q"
    using nN ulp64_pos [of q] by (simp add: mult_right_mono)
  also have "\<dots> = B" using N ulp64_pos [of q] by (simp add: field_simps)
  finally have rB: "?r \<le> B" .
  have r0: "0 \<le> ?r" using n0 ulp64_pos [of q] by simp
  have "\<bar>?r\<bar> < 2 ^ 1024"
    using rB r0 is_doubleD(2) [OF assms(1)] by linarith
  then have "round64 q = Fin ?r"
    by (simp add: round64_nonzero [OF False] not_le)
  then show ?thesis using rB r0 by blast
qed


lemma is_double_of_int:
  assumes "\<bar>n\<bar> < 2 ^ 53"
  shows "is_double (of_int n)"
proof (cases "n = 0")
  case True
  then show ?thesis by (simp add: is_double_0)
next
  case False
  let ?r = "of_int n :: rat"
  have r0: "?r \<noteq> 0" using False by simp
  have "(of_int \<bar>n\<bar> :: rat) < of_int (2 ^ 53)" using assms by (simp only: of_int_less_iff)
  then have lt: "\<bar>?r\<bar> < 2 powi 53" by simp
  then have "(2::rat) powi ilog 2 ?r < 2 powi 53"
    using ilog2_bounds(1) [OF r0] by linarith
  then have "ilog 2 ?r < 53" by (simp only: pow2_less_iff)
  then have "uexp ?r \<le> 0" by (simp add: uexp_def)
  moreover have "?r = of_int n * 2 powi 0" by simp
  ultimately have "?r / ulp64 ?r \<in> \<int>" by (intro grid_coarser)
  moreover have "\<bar>?r\<bar> < 2 ^ 1024"
  proof -
    have "(2::rat) powi 53 \<le> 2 powi 1024" by (simp only: pow2_le_iff)
    then show ?thesis using lt by simp
  qed
  ultimately show ?thesis by (rule is_doubleI)
qed

lemma double_below_1:
  assumes "is_double f" "0 \<le> f" "f < 1"
  shows "f \<le> 1 - 1 / 2 ^ 53"
proof (cases "f < 1 / 2")
  case True
  have "(1::rat) / 2 ^ 53 \<le> 1 / 2 ^ 1" by (intro divide_left_mono power_increasing) simp_all
  then show ?thesis using True by simp
next
  case False
  then have h: "1 / 2 \<le> f" by simp
  have "ilog 2 f = - 1"
    using h assms by (intro ilog2_unique) (simp_all add: power_int_minus)
  then have u: "ulp64 f = 2 powi (- 53)" by (simp add: ulp64_def uexp_def)
  obtain m where m: "f / ulp64 f = of_int m"
    using is_doubleD(1) [OF assms(1)] by (auto elim: Ints_cases)
  have fm: "f = of_int m / 2 ^ 53"
    using m by (simp add: u power_int_minus field_simps)
  have "(of_int m :: rat) < of_int (2 ^ 53)"
    using assms(3) by (simp add: fm)
  then have "m < 2 ^ 53" by (simp only: of_int_less_iff)
  then have "m \<le> 2 ^ 53 - 1" by simp
  then have "(of_int m :: rat) \<le> of_int (2 ^ 53 - 1)" by (simp only: of_int_le_iff)
  then show ?thesis by (simp add: fm field_simps)
qed

lemma round64_below_60:
  assumes "0 \<le> q" "q \<le> 60 - 60 / 2 ^ 53"
  shows "\<exists>r. round64 q = Fin r \<and> 0 \<le> r \<and> r < 60"
proof (cases "q \<le> 32")
  case True
  have "is_double (of_int 32)" by (rule is_double_of_int) simp
  then have "is_double 32" by simp
  from round64_bounded [OF this assms(1) True] show ?thesis by auto
next
  case False
  then have q32: "32 \<le> q" by simp
  have q64: "q < 64" using assms(2) by simp
  have q0: "q \<noteq> 0" using q32 by simp
  have "ilog 2 q = 5"
    using q32 q64 by (intro ilog2_unique) simp_all
  then have u: "ulp64 q = 1 / 2 ^ 47" by (simp add: ulp64_def uexp_def power_int_minus field_simps)
  let ?n = "round_half_even (q * 2 ^ 47)"
  have "of_int ?n \<le> q * 2 ^ 47 + 1 / 2" by (rule rhe_upper)
  also have "\<dots> \<le> (60 - 60 / 2 ^ 53) * 2 ^ 47 + 1 / 2" using assms(2) by simp
  also have "\<dots> < of_int (60 * 2 ^ 47)" by simp
  finally have "?n < 60 * 2 ^ 47" by (simp only: of_int_less_iff)
  then have "?n \<le> 60 * 2 ^ 47 - 1" by simp
  then have "(of_int ?n :: rat) \<le> of_int (60 * 2 ^ 47 - 1)" by (simp only: of_int_le_iff)
  then have hi: "of_int ?n / 2 ^ 47 < (60::rat)" by (simp add: field_simps)
  have "of_int 0 \<le> q * 2 ^ 47" using assms(1) by simp
  then have "0 \<le> ?n" by (rule rhe_ge)
  then have lo: "(0::rat) \<le> of_int ?n / 2 ^ 47" by simp
  have "round64 q = Fin (of_int ?n / 2 ^ 47)"
    using hi lo by (simp add: round64_nonzero [OF q0] u not_le)
  then show ?thesis using hi lo by blast
qed


lemma round64_eval:
  assumes "2 powi e \<le> \<bar>q\<bar>" "\<bar>q\<bar> < 2 powi (e + 1)" "- 1022 \<le> e" "e \<le> 1022"
  shows "round64 q = Fin (of_int (round_half_even (q / 2 powi (e - 52))) * 2 powi (e - 52))"
proof -
  have il: "ilog 2 q = e" by (rule ilog2_unique [OF assms(1,2)])
  have q0: "q \<noteq> 0"
  proof
    assume "q = 0"
    with assms(1) have "(2::rat) powi e \<le> 0" by simp
    moreover have "(0::rat) < 2 powi e" by simp
    ultimately show False by linarith
  qed
  have u: "ulp64 q = 2 powi (e - 52)" using assms(3) by (simp add: ulp64_def uexp_def il)
  let ?n = "round_half_even (q / 2 powi (e - 52))"
  have s: "\<bar>q / ulp64 q\<bar> < 2 ^ 53" by (rule scaled_lt_2_53 [OF q0])
  have c: "(of_int (2 ^ 53) :: rat) = 2 ^ 53" "(of_int (- (2 ^ 53)) :: rat) = - (2 ^ 53)"
    by simp_all
  have "q / ulp64 q \<le> of_int (2 ^ 53)" "of_int (- (2 ^ 53)) \<le> q / ulp64 q"
    unfolding c using s by linarith+
  then have "?n \<le> 2 ^ 53" "- (2 ^ 53) \<le> ?n"
    unfolding u using rhe_le rhe_ge by blast+
  then have "\<bar>?n\<bar> \<le> 2 ^ 53" by simp
  then have "(of_int \<bar>?n\<bar> :: rat) \<le> of_int (2 ^ 53)" by (simp only: of_int_le_iff)
  then have "(of_int \<bar>?n\<bar> :: rat) \<le> 2 powi 53" by simp
  then have "of_int \<bar>?n\<bar> * 2 powi (e - 52) \<le> (2::rat) powi 53 * 2 powi (e - 52)"
    by (intro mult_right_mono) simp_all
  moreover have "\<bar>of_int ?n * 2 powi (e - 52) :: rat\<bar> = of_int \<bar>?n\<bar> * 2 powi (e - 52)"
    by (simp add: abs_mult)
  ultimately have "\<bar>of_int ?n * 2 powi (e - 52) :: rat\<bar> \<le> 2 powi 53 * 2 powi (e - 52)"
    by simp
  also have "\<dots> = 2 powi (53 + (e - 52))" by (simp only: pow2_add)
  also have "\<dots> \<le> 2 powi 1023"
  proof -
    have "53 + (e - 52) \<le> 1023" using assms(4) by simp
    then show ?thesis by (rule iffD2 [OF pow2_le_iff])
  qed
  also have "\<dots> < 2 powi 1024" by (rule iffD2 [OF pow2_less_iff]) simp
  finally have "\<bar>of_int ?n * 2 powi (e - 52) :: rat\<bar> < 2 ^ 1024" by simp
  then show ?thesis by (simp add: round64_nonzero [OF q0] u not_le)
qed

lemma floor_rat_numeral_div:
  "\<lfloor>numeral a / numeral b :: rat\<rfloor> = numeral a div numeral b"
  by (metis floor_divide_of_int_eq of_int_numeral)

lemma rhe_of_int_div:
  assumes "0 < d"
  shows "round_half_even (of_int p / of_int d) =
     (if 2 * (p mod d) < d then p div d
      else if d < 2 * (p mod d) then p div d + 1
      else if even (p div d) then p div d else p div d + 1)"
proof -
  let ?x = "of_int p / of_int d :: rat"
  have f: "\<lfloor>?x\<rfloor> = p div d" by (rule floor_divide_of_int_eq)
  have dp: "(0::rat) < of_int d" using assms by simp
  have "of_int p = (of_int (p div d) * of_int d + of_int (p mod d) :: rat)"
    by (metis of_int_add of_int_mult div_mult_mod_eq)
  then have "?x - of_int (p div d) = of_int (p mod d) / of_int d"
    using dp by (simp add: field_simps)
  then have r: "?x - of_int (p div d) = of_int (p mod d) / of_int d" .
  have lt: "?x - of_int (p div d) < 1 / 2 \<longleftrightarrow> 2 * (p mod d) < d"
  proof -
    have "?x - of_int (p div d) < 1 / 2 \<longleftrightarrow> (of_int (2 * (p mod d)) :: rat) < of_int d"
      unfolding r using dp by (simp add: field_simps)
    then show ?thesis by (simp only: of_int_less_iff)
  qed
  have gt: "1 / 2 < ?x - of_int (p div d) \<longleftrightarrow> d < 2 * (p mod d)"
  proof -
    have "1 / 2 < ?x - of_int (p div d) \<longleftrightarrow> (of_int d :: rat) < of_int (2 * (p mod d))"
      unfolding r using dp by (simp add: field_simps)
    then show ?thesis by (simp only: of_int_less_iff)
  qed
  show ?thesis
    unfolding round_half_even_def Let_def f lt gt ..
qed

lemma rhe_numeral_div:
  "round_half_even (numeral a / numeral b) =
     (if 2 * (numeral a mod numeral b) < (numeral b :: int) then numeral a div numeral b
      else if (numeral b :: int) < 2 * (numeral a mod numeral b) then numeral a div numeral b + 1
      else if even (numeral a div numeral b :: int) then numeral a div numeral b
      else numeral a div numeral b + 1)"
  using rhe_of_int_div [of "numeral b" "numeral a"] by simp

lemma rhe_numeral: "round_half_even (numeral a) = numeral a"
  using rhe_of_int [of "numeral a"] by simp

lemma round64_0: "round64 0 = Fin 0"
  by (simp add: round64_def)

lemma round64_numeral:
  "(numeral w :: int) < 2 ^ 53 \<Longrightarrow> round64 (numeral w) = Fin (numeral w)"
  using is_double_of_int [of "numeral w"] by (simp add: is_double_def)

lemma shortest_digits_numeral:
  "shortest_digits x (numeral n) k =
     (case digit_candidates x k of
        [] \<Rightarrow> shortest_digits x (pred_numeral n) (Suc k)
      | c # cs \<Rightarrow> (let (n, s) = foldl (closer_candidate x k) c cs in (n, k, s)))"
  by (simp add: numeral_eq_Suc)

lemma dec_digits_numeral:
  "dec_digits (numeral w) =
     (if (numeral w :: int) < 10 then [digit_char (numeral w)]
      else dec_digits (numeral w div 10) @ [digit_char (numeral w mod 10)])"
  by (rule dec_digits.simps)

lemma digit_char_table:
  "digit_char 0 = CHR ''0''" "digit_char 1 = CHR ''1''" "digit_char 2 = CHR ''2''"
  "digit_char 3 = CHR ''3''" "digit_char 4 = CHR ''4''" "digit_char 5 = CHR ''5''"
  "digit_char 6 = CHR ''6''" "digit_char 7 = CHR ''7''" "digit_char 8 = CHR ''8''"
  "digit_char 9 = CHR ''9''"
  by (code_simp)+

lemma dec_digits_0: "dec_digits 0 = ''0''"
  by (simp add: dec_digits.simps digit_char_table)

lemma dec_digits_1: "dec_digits 1 = ''1''"
  by (simp add: dec_digits.simps digit_char_table)

lemma floor_rat_one_div: "\<lfloor>1 / numeral b :: rat\<rfloor> = 1 div numeral b"
  using floor_divide_of_int_eq [of 1 "numeral b", where ?'a = rat] by simp

lemma round64_1: "round64 1 = Fin 1"
  using is_double_of_int [of 1] by (simp add: is_double_def)

lemmas ToString_eval =
  positive_to_string_def shortest_digits_numeral digit_candidates_def
  ilog10_unique [of 0] ilog10_unique [of 1] ilog10_unique [of 2]
  round64_numeral round64_0 round64_1 dec_digits_numeral dec_digits_1 digit_char_table
  floor_rat_numeral_div floor_rat_one_div closer_candidate_def candidate_error_def

lemmas parse_eval =
  parseFloat_def TrimStart.simps ws_len_def white_space_def split_sign_def
  is_digit_def digits_value_def exponent_part_def

lemmas dms_eval = dms_degrees_def dms_minutes_def dms_seconds_def
  floor_rat_numeral_div floor_rat_one_div rhe_numeral_div rhe_numeral round64_0

text \<open>Rounding is symmetric.\<close>

lemma rhe_uminus: "round_half_even (- x) = - round_half_even x"
proof (cases "x = of_int \<lfloor>x\<rfloor>")
  case True
  then obtain n where n: "x = of_int n" by blast
  show ?thesis by (simp add: n round_half_even_def Let_def flip: of_int_minus)
next
  case False
  have fl: "\<lfloor>- x\<rfloor> = - \<lfloor>x\<rfloor> - 1"
    using False by (simp add: floor_minus ceiling_altdef)
  have d: "0 < x - of_int \<lfloor>x\<rfloor>" "x - of_int \<lfloor>x\<rfloor> < 1"
    using False by linarith+
  show ?thesis
    using d by (auto simp: round_half_even_def Let_def fl)
qed

lemma ulp64_uminus: "ulp64 (- q) = ulp64 q"
  by (simp add: ulp64_def uexp_def ilog_def)

lemma round64_uminus:
  assumes "round64 q = Fin r"
  shows "round64 (- q) = Fin (- r)"
proof (cases "q = 0")
  case True
  then show ?thesis using assms by (simp add: round64_def)
next
  case False
  let ?r = "of_int (round_half_even (q / ulp64 q)) * ulp64 q"
  have r: "\<not> 2 ^ 1024 \<le> \<bar>?r\<bar>" "r = ?r"
    using assms False by (auto simp: round64_def Let_def split: if_splits)
  show ?thesis
    using False r by (simp add: round64_def Let_def ulp64_uminus rhe_uminus)
qed

section \<open>Properties of the coordinate formatter\<close>

lemma is_double_abs: "is_double a \<Longrightarrow> is_double \<bar>a\<bar>"
proof -
  assume a: "is_double a"
  have u: "ulp64 \<bar>a\<bar> = ulp64 a" by (simp add: ulp64_def uexp_def ilog_def)
  have up: "\<bar>ulp64 a\<bar> = ulp64 a" using ulp64_pos [of a] by simp
  obtain m where m: "a / ulp64 a = of_int m"
    using is_doubleD(1) [OF a] by (auto elim: Ints_cases)
  have "\<bar>a\<bar> / ulp64 \<bar>a\<bar> = \<bar>a / ulp64 a\<bar>" by (simp only: u abs_divide up)
  also have "\<dots> = of_int \<bar>m\<bar>" by (simp only: m of_int_abs)
  finally have "\<bar>a\<bar> / ulp64 \<bar>a\<bar> \<in> \<int>" by (metis Ints_of_int)
  then show ?thesis using is_doubleD(2) [OF a] by (intro is_doubleI) simp_all
qed

lemma dms_components:
  assumes "is_double a"
  shows "\<exists>m s. dms_degrees (Fin a) = Fin (of_int \<lfloor>\<bar>a\<bar>\<rfloor>)
             \<and> dms_minutes (Fin a) = Fin (of_int m)
             \<and> dms_seconds (Fin a) = Fin (of_int s)
             \<and> 0 \<le> m \<and> m \<le> 59 \<and> 0 \<le> s \<and> s \<le> 60"
proof -
  let ?x = "\<bar>a\<bar>"
  let ?f = "?x - of_int \<lfloor>?x\<rfloor>"
  have dx: "is_double ?x" by (rule is_double_abs [OF assms])
  have ab: "Math_abs (Fin a) = Fin ?x" by simp
  have deg: "dms_degrees (Fin a) = Fin (of_int \<lfloor>?x\<rfloor>)"
    by (simp add: dms_degrees_def)
  have df: "is_double ?f" by (rule is_double_frac [OF dx]) simp
  have f: "0 \<le> ?f" "?f < 1" by linarith+
  have "round64 ?f = Fin ?f"
    using df by (simp only: is_double_def)
  then have sub1: "js_sub (Fin ?x) (Fin (of_int \<lfloor>?x\<rfloor>)) = Fin ?f"
    by (simp only: js_sub.simps)
  have "?f \<le> 1 - 1 / 2 ^ 53" by (rule double_below_1 [OF df f])
  then have "?f * 60 \<le> (1 - 1 / 2 ^ 53) * 60" by (simp only: mult_le_cancel_right) simp
  then have "?f * 60 \<le> 60 - 60 / 2 ^ 53" by (simp add: algebra_simps)
  moreover have "0 \<le> ?f * 60" using f by simp
  ultimately obtain g where g: "round64 (?f * 60) = Fin g" "0 \<le> g" "g < 60"
    using round64_below_60 by blast
  have mul1: "js_mul (Fin ?f) (Fin 60) = Fin g"
    using g(1) by (simp only: js_mul.simps)
  have dg: "is_double g" by (rule round64_double [OF g(1)])
  have min: "dms_minutes (Fin a) = Fin (of_int \<lfloor>g\<rfloor>)"
    by (simp only: dms_minutes_def deg ab sub1 mul1 Math_floor.simps)
  have mb: "0 \<le> \<lfloor>g\<rfloor>" "\<lfloor>g\<rfloor> \<le> 59"
    using g(2,3) by (simp_all add: floor_le_iff) 
  let ?h = "g - of_int \<lfloor>g\<rfloor>"
  have dh: "is_double ?h" by (rule is_double_frac [OF dg g(2)])
  have h: "0 \<le> ?h" "?h < 1" by linarith+
  have "round64 ?h = Fin ?h"
    using dh by (simp only: is_double_def)
  then have sub2: "js_sub (Fin g) (Fin (of_int \<lfloor>g\<rfloor>)) = Fin ?h"
    by (simp only: js_sub.simps)
  have "is_double (of_int 60)" by (rule is_double_of_int) simp
  then have d60: "is_double 60" by simp
  have "0 \<le> ?h * 60" "?h * 60 \<le> 60" using h by simp_all
  then obtain k where k: "round64 (?h * 60) = Fin k" "0 \<le> k" "k \<le> 60"
    using round64_bounded [OF d60] by blast
  have mul2: "js_mul (Fin ?h) (Fin 60) = Fin k"
    using k(1) by (simp only: js_mul.simps)
  have sec: "dms_seconds (Fin a) = Fin (of_int \<lfloor>k + 1 / 2\<rfloor>)"
    by (simp only: dms_seconds_def deg min ab sub1 mul1 sub2 mul2 Math_round.simps)
  have sb: "0 \<le> \<lfloor>k + 1 / 2\<rfloor>" "\<lfloor>k + 1 / 2\<rfloor> \<le> 60"
    using k(2,3) by (simp_all add: floor_le_iff le_floor_iff) 
  from deg min sec mb sb show ?thesis by blast
qed

lemma dms_values:
  assumes "is_double a"
  shows "\<exists>m s. round64 ((\<bar>a\<bar> - of_int \<lfloor>\<bar>a\<bar>\<rfloor>) * 60) = Fin m
             \<and> round64 ((m - of_int \<lfloor>m\<rfloor>) * 60) = Fin s
             \<and> dms_degrees (Fin a) = Fin (of_int \<lfloor>\<bar>a\<bar>\<rfloor>)
             \<and> dms_minutes (Fin a) = Fin (of_int \<lfloor>m\<rfloor>)
             \<and> dms_seconds (Fin a) = Fin (of_int \<lfloor>s + 1 / 2\<rfloor>)"
proof -
  let ?x = "\<bar>a\<bar>"
  let ?f = "?x - of_int \<lfloor>?x\<rfloor>"
  have dx: "is_double ?x" by (rule is_double_abs [OF assms])
  have ab: "Math_abs (Fin a) = Fin ?x" by simp
  have deg: "dms_degrees (Fin a) = Fin (of_int \<lfloor>?x\<rfloor>)"
    by (simp add: dms_degrees_def)
  have df: "is_double ?f" by (rule is_double_frac [OF dx]) simp
  have f: "0 \<le> ?f" "?f < 1" by linarith+
  have "round64 ?f = Fin ?f"
    using df by (simp only: is_double_def)
  then have sub1: "js_sub (Fin ?x) (Fin (of_int \<lfloor>?x\<rfloor>)) = Fin ?f"
    by (simp only: js_sub.simps)
  have "?f \<le> 1 - 1 / 2 ^ 53" by (rule double_below_1 [OF df f])
  then have "?f * 60 \<le> (1 - 1 / 2 ^ 53) * 60" by (simp only: mult_le_cancel_right) simp
  then have "?f * 60 \<le> 60 - 60 / 2 ^ 53" by (simp add: algebra_simps)
  moreover have "0 \<le> ?f * 60" using f by simp
  ultimately obtain g where g: "round64 (?f * 60) = Fin g" "0 \<le> g" "g < 60"
    using round64_below_60 by blast
  have mul1: "js_mul (Fin ?f) (Fin 60) = Fin g"
    using g(1) by (simp only: js_mul.simps)
  have dg: "is_double g" by (rule round64_double [OF g(1)])
  have min: "dms_minutes (Fin a) = Fin (of_int \<lfloor>g\<rfloor>)"
    by (simp only: dms_minutes_def deg ab sub1 mul1 Math_floor.simps)
  let ?h = "g - of_int \<lfloor>g\<rfloor>"
  have dh: "is_double ?h" by (rule is_double_frac [OF dg g(2)])
  have h: "0 \<le> ?h" "?h < 1" by linarith+
  have "round64 ?h = Fin ?h"
    using dh by (simp only: is_double_def)
  then have sub2: "js_sub (Fin g) (Fin (of_int \<lfloor>g\<rfloor>)) = Fin ?h"
    by (simp only: js_sub.simps)
  have "is_double (of_int 60)" by (rule is_double_of_int) simp
  then have d60: "is_double 60" by simp
  have "0 \<le> ?h * 60" "?h * 60 \<le> 60" using h by simp_all
  then obtain k where k: "round64 (?h * 60) = Fin k" "0 \<le> k" "k \<le> 60"
    using round64_bounded [OF d60] by blast
  have mul2: "js_mul (Fin ?h) (Fin 60) = Fin k"
    using k(1) by (simp only: js_mul.simps)
  have sec: "dms_seconds (Fin a) = Fin (of_int \<lfloor>k + 1 / 2\<rfloor>)"
    by (simp only: dms_seconds_def deg min ab sub1 mul1 sub2 mul2 Math_round.simps)
  from g(1) k(1) deg min sec show ?thesis by blast
qed

lemma convertToDMS_axes:
  "convertToDMS x y =
     dms_axis x (if js_ge x (Fin 0) then ''N'' else ''S'') @ '', '' @
     dms_axis y (if js_ge y (Fin 0) then ''E'' else ''W'')"
  by (simp add: convertToDMS_def dms_axis_def dms_degrees_def dms_minutes_def dms_seconds_def Let_def)



text \<open>The values of the examples: the Numbers that \<open>parseFloat\<close> reads.\<close>

lemma parseFloat_25_1972:
  "parseFloat (Some ''25.1972'') = Fin (7092381283173741 / 281474976710656)"
  by (simp add: parse_eval round64_eval [of 4] rhe_numeral_div)

lemma parseFloat_55_2744:
  "parseFloat (Some ''55.2744'') = Fin (3889590113173871 / 70368744177664)"
  by (simp add: parse_eval round64_eval [of 5] rhe_numeral_div)

lemma parseFloat_0_99999:
  "parseFloat (Some ''0.99999'') = Fin (9007109182748445 / 9007199254740992)"
  by (simp add: parse_eval round64_eval [of "- 1"] rhe_numeral_div)

lemma dms_25_1972:
  "dms_degrees (Fin (7092381283173741 / 281474976710656)) = Fin 25"
  "dms_minutes (Fin (7092381283173741 / 281474976710656)) = Fin 11"
  "dms_seconds (Fin (7092381283173741 / 281474976710656)) = Fin 50"
  by (simp_all add: dms_eval round64_eval [of "- 3"] round64_eval [of 3]
      round64_eval [of "- 1"] round64_eval [of 5])

lemma dms_55_2744:
  "dms_degrees (Fin (3889590113173871 / 70368744177664)) = Fin 55"
  "dms_minutes (Fin (3889590113173871 / 70368744177664)) = Fin 16"
  "dms_seconds (Fin (3889590113173871 / 70368744177664)) = Fin 28"
  by (simp_all add: dms_eval round64_eval [of "- 2"] round64_eval [of 4])

lemma dms_0_99999:
  "dms_degrees (Fin (9007109182748445 / 9007199254740992)) = Fin 0"
  "dms_minutes (Fin (9007109182748445 / 9007199254740992)) = Fin 59"
  "dms_seconds (Fin (9007109182748445 / 9007199254740992)) = Fin 60"
  by (simp_all add: dms_eval round64_eval [of "- 1"] round64_eval [of 5])

lemma dms_zero:
  "dms_degrees (Fin 0) = Fin 0" "dms_minutes (Fin 0) = Fin 0" "dms_seconds (Fin 0) = Fin 0"
  by (simp_all add: dms_eval)

lemma parseFloat_0_3:
  "parseFloat (Some ''0.3'') = Fin (5404319552844595 / 18014398509481984)"
  by (simp add: parse_eval round64_eval [of "- 2"] rhe_numeral_div)

lemma round64_33_8688:
  "round64 (338688 / 10000) = Fin (4766609845608933 / 140737488355328)"
  by (simp add: round64_eval [of 5] rhe_numeral_div)

lemma parseFloat_minus_33_8688:
  "parseFloat (Some ''-33.8688'') = Fin (- (4766609845608933 / 140737488355328))"
proof -
  have "parseFloat (Some ''-33.8688'') = round64 (- (338688 / 10000))"
    by (simp add: parse_eval)
  then show ?thesis
    by (simp only: round64_uminus [OF round64_33_8688])
qed

lemma parseFloat_151_2093:
  "parseFloat (Some ''151.2093'') = Fin (5320204274491825 / 35184372088832)"
  by (simp add: parse_eval round64_eval [of 7] rhe_numeral_div)

lemma dms_0_3:
  "dms_degrees (Fin (5404319552844595 / 18014398509481984)) = Fin 0"
  "dms_minutes (Fin (5404319552844595 / 18014398509481984)) = Fin 18"
  "dms_seconds (Fin (5404319552844595 / 18014398509481984)) = Fin 0"
  by (simp_all add: dms_eval round64_eval [of "- 2"] round64_eval [of 4])

lemma dms_minus_33_8688:
  "dms_degrees (Fin (- (4766609845608933 / 140737488355328))) = Fin 33"
  "dms_minutes (Fin (- (4766609845608933 / 140737488355328))) = Fin 52"
  "dms_seconds (Fin (- (4766609845608933 / 140737488355328))) = Fin 8"
  by (simp_all add: dms_eval round64_eval [of "- 1"] round64_eval [of 5]
      round64_eval [of "- 3"] round64_eval [of 2])

lemma dms_151_2093:
  "dms_degrees (Fin (5320204274491825 / 35184372088832)) = Fin 151"
  "dms_minutes (Fin (5320204274491825 / 35184372088832)) = Fin 12"
  "dms_seconds (Fin (5320204274491825 / 35184372088832)) = Fin 33"
  by (simp_all add: dms_eval round64_eval [of "- 3"] round64_eval [of 3]
      round64_eval [of "- 1"] round64_eval [of 5])

lemma exact_0_3:
  "exact_degrees (5404319552844595 / 18014398509481984) = 0"
  "exact_minutes (5404319552844595 / 18014398509481984) = 17"
  "exact_seconds (5404319552844595 / 18014398509481984) = 60"
  by (simp_all add: exact_degrees_def exact_minutes_def exact_seconds_def round_def
      floor_rat_numeral_div)

lemma round64_151_2093:
  "round64 (1512093 / 10000) = Fin (5320204274491825 / 35184372088832)"
  by (simp add: round64_eval [of 7] rhe_numeral_div)

lemma parseFloat_minus_151_2093:
  "parseFloat (Some ''-151.2093'') = Fin (- (5320204274491825 / 35184372088832))"
proof -
  have "parseFloat (Some ''-151.2093'') = round64 (- (1512093 / 10000))"
    by (simp add: parse_eval)
  then show ?thesis
    by (simp only: round64_uminus [OF round64_151_2093])
qed

lemma parseFloat_zero: "parseFloat (Some ''0'') = Fin 0"
  by (simp add: parse_eval round64_0)

lemma dms_minus_151_2093:
  "dms_degrees (Fin (- (5320204274491825 / 35184372088832))) = Fin 151"
  "dms_minutes (Fin (- (5320204274491825 / 35184372088832))) = Fin 12"
  "dms_seconds (Fin (- (5320204274491825 / 35184372088832))) = Fin 33"
  by (simp_all add: dms_eval round64_eval [of "- 3"] round64_eval [of 3]
      round64_eval [of "- 1"] round64_eval [of 5])

text \<open>
  C1, as amended. For binary64 arguments the result is \<open>D\<degree>M\<Zprime>S\<Zsecond>H, D\<degree>M\<Zprime>S\<Zsecond>H\<close> where, on each
  axis, \<open>D\<close> is the floor of the absolute value, \<open>M\<close> is the floor of \<open>m\<close>, the
  product of the rest and 60 rounded to binary64, and \<open>S\<close> is the floor of \<open>s + 1/2\<close>,
  \<open>s\<close> being the product of \<open>m - M\<close> and 60 rounded to binary64; the two subtractions
  are exact. \<open>H\<close> is chosen by the sign, zero counting as non-negative. The two examples
  of the specification come out as it gives them, and so do \<open>(-33.8688, 151.2093)\<close>
  and \<open>(0, -151.2093)\<close>.
\<close>

theorem convertToDMS_format:
  "(is_double a \<and> is_double b \<longrightarrow>
      (\<exists>m s m' s'.
         round64 ((\<bar>a\<bar> - of_int \<lfloor>\<bar>a\<bar>\<rfloor>) * 60) = Fin m
       \<and> round64 ((m - of_int \<lfloor>m\<rfloor>) * 60) = Fin s
       \<and> round64 ((\<bar>b\<bar> - of_int \<lfloor>\<bar>b\<bar>\<rfloor>) * 60) = Fin m'
       \<and> round64 ((m' - of_int \<lfloor>m'\<rfloor>) * 60) = Fin s'
       \<and> convertToDMS (Fin a) (Fin b) =
           ToString (Fin (of_int \<lfloor>\<bar>a\<bar>\<rfloor>)) @ degree_sign @
           ToString (Fin (of_int \<lfloor>m\<rfloor>)) @ prime_sign @
           ToString (Fin (of_int \<lfloor>s + 1 / 2\<rfloor>)) @ double_prime_sign @
           (if 0 \<le> a then ''N'' else ''S'') @ '', '' @
           ToString (Fin (of_int \<lfloor>\<bar>b\<bar>\<rfloor>)) @ degree_sign @
           ToString (Fin (of_int \<lfloor>m'\<rfloor>)) @ prime_sign @
           ToString (Fin (of_int \<lfloor>s' + 1 / 2\<rfloor>)) @ double_prime_sign @
           (if 0 \<le> b then ''E'' else ''W'')))
   \<and> convertToDMS (parseFloat (Some ''25.1972'')) (parseFloat (Some ''55.2744'')) =
       ''25'' @ degree_sign @ ''11'' @ prime_sign @ ''50'' @ double_prime_sign @ ''N, '' @
       ''55'' @ degree_sign @ ''16'' @ prime_sign @ ''28'' @ double_prime_sign @ ''E''
   \<and> convertToDMS (Fin 0) (Fin 0) =
       ''0'' @ degree_sign @ ''0'' @ prime_sign @ ''0'' @ double_prime_sign @ ''N, '' @
       ''0'' @ degree_sign @ ''0'' @ prime_sign @ ''0'' @ double_prime_sign @ ''E''
   \<and> convertToDMS (parseFloat (Some ''-33.8688'')) (parseFloat (Some ''151.2093'')) =
       ''33'' @ degree_sign @ ''52'' @ prime_sign @ ''8'' @ double_prime_sign @ ''S, '' @
       ''151'' @ degree_sign @ ''12'' @ prime_sign @ ''33'' @ double_prime_sign @ ''E''
   \<and> convertToDMS (parseFloat (Some ''0'')) (parseFloat (Some ''-151.2093'')) =
       ''0'' @ degree_sign @ ''0'' @ prime_sign @ ''0'' @ double_prime_sign @ ''N, '' @
       ''151'' @ degree_sign @ ''12'' @ prime_sign @ ''33'' @ double_prime_sign @ ''W''"
proof -
  have 1: "\<exists>m s m' s'.
         round64 ((\<bar>a\<bar> - of_int \<lfloor>\<bar>a\<bar>\<rfloor>) * 60) = Fin m
       \<and> round64 ((m - of_int \<lfloor>m\<rfloor>) * 60) = Fin s
       \<and> round64 ((\<bar>b\<bar> - of_int \<lfloor>\<bar>b\<bar>\<rfloor>) * 60) = Fin m'
       \<and> round64 ((m' - of_int \<lfloor>m'\<rfloor>) * 60) = Fin s'
       \<and> convertToDMS (Fin a) (Fin b) =
           ToString (Fin (of_int \<lfloor>\<bar>a\<bar>\<rfloor>)) @ degree_sign @
           ToString (Fin (of_int \<lfloor>m\<rfloor>)) @ prime_sign @
           ToString (Fin (of_int \<lfloor>s + 1 / 2\<rfloor>)) @ double_prime_sign @
           (if 0 \<le> a then ''N'' else ''S'') @ '', '' @
           ToString (Fin (of_int \<lfloor>\<bar>b\<bar>\<rfloor>)) @ degree_sign @
           ToString (Fin (of_int \<lfloor>m'\<rfloor>)) @ prime_sign @
           ToString (Fin (of_int \<lfloor>s' + 1 / 2\<rfloor>)) @ double_prime_sign @
           (if 0 \<le> b then ''E'' else ''W'')"
    if d: "is_double a" "is_double b"
  proof -
    obtain m s where lat:
      "round64 ((\<bar>a\<bar> - of_int \<lfloor>\<bar>a\<bar>\<rfloor>) * 60) = Fin m"
      "round64 ((m - of_int \<lfloor>m\<rfloor>) * 60) = Fin s"
      "dms_degrees (Fin a) = Fin (of_int \<lfloor>\<bar>a\<bar>\<rfloor>)"
      "dms_minutes (Fin a) = Fin (of_int \<lfloor>m\<rfloor>)"
      "dms_seconds (Fin a) = Fin (of_int \<lfloor>s + 1 / 2\<rfloor>)"
      using dms_values [OF d(1)] by blast
    obtain m' s' where lng:
      "round64 ((\<bar>b\<bar> - of_int \<lfloor>\<bar>b\<bar>\<rfloor>) * 60) = Fin m'"
      "round64 ((m' - of_int \<lfloor>m'\<rfloor>) * 60) = Fin s'"
      "dms_degrees (Fin b) = Fin (of_int \<lfloor>\<bar>b\<bar>\<rfloor>)"
      "dms_minutes (Fin b) = Fin (of_int \<lfloor>m'\<rfloor>)"
      "dms_seconds (Fin b) = Fin (of_int \<lfloor>s' + 1 / 2\<rfloor>)"
      using dms_values [OF d(2)] by blast
    have "convertToDMS (Fin a) (Fin b) =
           ToString (Fin (of_int \<lfloor>\<bar>a\<bar>\<rfloor>)) @ degree_sign @
           ToString (Fin (of_int \<lfloor>m\<rfloor>)) @ prime_sign @
           ToString (Fin (of_int \<lfloor>s + 1 / 2\<rfloor>)) @ double_prime_sign @
           (if 0 \<le> a then ''N'' else ''S'') @ '', '' @
           ToString (Fin (of_int \<lfloor>\<bar>b\<bar>\<rfloor>)) @ degree_sign @
           ToString (Fin (of_int \<lfloor>m'\<rfloor>)) @ prime_sign @
           ToString (Fin (of_int \<lfloor>s' + 1 / 2\<rfloor>)) @ double_prime_sign @
           (if 0 \<le> b then ''E'' else ''W'')"
      by (simp only: convertToDMS_axes dms_axis_def lat(3-5) lng(3-5) js_ge.simps append_assoc)
    with lat(1,2) lng(1,2) show ?thesis by blast
  qed
  have 2: "convertToDMS (parseFloat (Some ''25.1972'')) (parseFloat (Some ''55.2744'')) =
       ''25'' @ degree_sign @ ''11'' @ prime_sign @ ''50'' @ double_prime_sign @ ''N, '' @
       ''55'' @ degree_sign @ ''16'' @ prime_sign @ ''28'' @ double_prime_sign @ ''E''"
    by (simp add: convertToDMS_axes dms_axis_def parseFloat_25_1972 parseFloat_55_2744
        dms_25_1972 dms_55_2744 ToString_eval)
  have 3: "convertToDMS (Fin 0) (Fin 0) =
       ''0'' @ degree_sign @ ''0'' @ prime_sign @ ''0'' @ double_prime_sign @ ''N, '' @
       ''0'' @ degree_sign @ ''0'' @ prime_sign @ ''0'' @ double_prime_sign @ ''E''"
    by (simp add: convertToDMS_axes dms_axis_def dms_zero)
  have 4: "convertToDMS (parseFloat (Some ''-33.8688'')) (parseFloat (Some ''151.2093'')) =
       ''33'' @ degree_sign @ ''52'' @ prime_sign @ ''8'' @ double_prime_sign @ ''S, '' @
       ''151'' @ degree_sign @ ''12'' @ prime_sign @ ''33'' @ double_prime_sign @ ''E''"
    by (simp add: convertToDMS_axes dms_axis_def parseFloat_minus_33_8688 parseFloat_151_2093
        dms_minus_33_8688 dms_151_2093 ToString_eval)
  have 5: "convertToDMS (parseFloat (Some ''0'')) (parseFloat (Some ''-151.2093'')) =
       ''0'' @ degree_sign @ ''0'' @ prime_sign @ ''0'' @ double_prime_sign @ ''N, '' @
       ''151'' @ degree_sign @ ''12'' @ prime_sign @ ''33'' @ double_prime_sign @ ''W''"
    by (simp add: convertToDMS_axes dms_axis_def parseFloat_zero parseFloat_minus_151_2093
        dms_minus_151_2093 dms_zero ToString_eval)
  from 1 2 3 4 5 show ?thesis
    by blast
qed

theorem convertToDMS_format_witness:
  "is_double (- (4766609845608933 / 140737488355328))
   \<and> is_double (5320204274491825 / 35184372088832)
   \<and> (\<exists>m s m' s'.
         round64 ((\<bar>- (4766609845608933 / 140737488355328)\<bar>
                    - of_int \<lfloor>\<bar>- (4766609845608933 / 140737488355328) :: rat\<bar>\<rfloor>) * 60) = Fin m
       \<and> round64 ((m - of_int \<lfloor>m\<rfloor>) * 60) = Fin s
       \<and> round64 ((\<bar>5320204274491825 / 35184372088832\<bar>
                    - of_int \<lfloor>\<bar>5320204274491825 / 35184372088832 :: rat\<bar>\<rfloor>) * 60) = Fin m'
       \<and> round64 ((m' - of_int \<lfloor>m'\<rfloor>) * 60) = Fin s'
       \<and> convertToDMS (Fin (- (4766609845608933 / 140737488355328)))
                      (Fin (5320204274491825 / 35184372088832)) =
           ToString (Fin 33) @ degree_sign @
           ToString (Fin (of_int \<lfloor>m\<rfloor>)) @ prime_sign @
           ToString (Fin (of_int \<lfloor>s + 1 / 2\<rfloor>)) @ double_prime_sign @ ''S'' @ '', '' @
           ToString (Fin 151) @ degree_sign @
           ToString (Fin (of_int \<lfloor>m'\<rfloor>)) @ prime_sign @
           ToString (Fin (of_int \<lfloor>s' + 1 / 2\<rfloor>)) @ double_prime_sign @ ''E'')"
proof -
  let ?a = "- (4766609845608933 / 140737488355328) :: rat"
  let ?b = "5320204274491825 / 35184372088832 :: rat"
  have da: "is_double ?a"
    by (rule round64_double [OF round64_uminus [OF round64_33_8688]])
  have db: "is_double ?b"
    by (rule round64_double [OF round64_151_2093])
  have fa: "\<lfloor>\<bar>?a\<bar>\<rfloor> = 33" "\<lfloor>\<bar>?b\<bar>\<rfloor> = 151" "\<not> 0 \<le> ?a" "0 \<le> ?b"
    by (simp_all add: floor_rat_numeral_div)
  from convertToDMS_format [of ?a ?b] da db
  have "\<exists>m s m' s'.
         round64 ((\<bar>?a\<bar> - of_int \<lfloor>\<bar>?a\<bar>\<rfloor>) * 60) = Fin m
       \<and> round64 ((m - of_int \<lfloor>m\<rfloor>) * 60) = Fin s
       \<and> round64 ((\<bar>?b\<bar> - of_int \<lfloor>\<bar>?b\<bar>\<rfloor>) * 60) = Fin m'
       \<and> round64 ((m' - of_int \<lfloor>m'\<rfloor>) * 60) = Fin s'
       \<and> convertToDMS (Fin ?a) (Fin ?b) =
           ToString (Fin (of_int \<lfloor>\<bar>?a\<bar>\<rfloor>)) @ degree_sign @
           ToString (Fin (of_int \<lfloor>m\<rfloor>)) @ prime_sign @
           ToString (Fin (of_int \<lfloor>s + 1 / 2\<rfloor>)) @ double_prime_sign @
           (if 0 \<le> ?a then ''N'' else ''S'') @ '', '' @
           ToString (Fin (of_int \<lfloor>\<bar>?b\<bar>\<rfloor>)) @ degree_sign @
           ToString (Fin (of_int \<lfloor>m'\<rfloor>)) @ prime_sign @
           ToString (Fin (of_int \<lfloor>s' + 1 / 2\<rfloor>)) @ double_prime_sign @
           (if 0 \<le> ?b then ''E'' else ''W'')"
    by blast
  then have "\<exists>m s m' s'.
         round64 ((\<bar>?a\<bar> - of_int \<lfloor>\<bar>?a\<bar>\<rfloor>) * 60) = Fin m
       \<and> round64 ((m - of_int \<lfloor>m\<rfloor>) * 60) = Fin s
       \<and> round64 ((\<bar>?b\<bar> - of_int \<lfloor>\<bar>?b\<bar>\<rfloor>) * 60) = Fin m'
       \<and> round64 ((m' - of_int \<lfloor>m'\<rfloor>) * 60) = Fin s'
       \<and> convertToDMS (Fin ?a) (Fin ?b) =
           ToString (Fin 33) @ degree_sign @
           ToString (Fin (of_int \<lfloor>m\<rfloor>)) @ prime_sign @
           ToString (Fin (of_int \<lfloor>s + 1 / 2\<rfloor>)) @ double_prime_sign @ ''S'' @ '', '' @
           ToString (Fin 151) @ degree_sign @
           ToString (Fin (of_int \<lfloor>m'\<rfloor>)) @ prime_sign @
           ToString (Fin (of_int \<lfloor>s' + 1 / 2\<rfloor>)) @ double_prime_sign @ ''E''"
    by (simp only: fa if_True if_False of_int_numeral)
  with da db show ?thesis
    by blast
qed

text \<open>
  C1, as stated, fails: with the formulas read in exact arithmetic the latitude \<open>0.3\<close>,
  the Number \<open>5404319552844595 / 2\<^sup>5\<^sup>4\<close>, has 17 minutes and 60 seconds, and the formatter
  prints \<open>0\<degree>18\<Zprime>0\<Zsecond>N\<close>: the product with 60 rounds up to 18.
\<close>

theorem exact_formulas_differ:
  "convertToDMS (parseFloat (Some ''0.3'')) (Fin 0) =
     ''0'' @ degree_sign @ ''18'' @ prime_sign @ ''0'' @ double_prime_sign @ ''N, '' @
     ''0'' @ degree_sign @ ''0'' @ prime_sign @ ''0'' @ double_prime_sign @ ''E''
   \<and> parseFloat (Some ''0.3'') = Fin (5404319552844595 / 18014398509481984)
   \<and> exact_degrees (5404319552844595 / 18014398509481984) = 0
   \<and> exact_minutes (5404319552844595 / 18014398509481984) = 17
   \<and> exact_seconds (5404319552844595 / 18014398509481984) = 60"
  by (simp add: convertToDMS_axes dms_axis_def parseFloat_0_3 dms_0_3 dms_zero exact_0_3
      ToString_eval)

text \<open>
  C5. \<open>convertToDMS\<close> is a function of its two arguments. For binary64 values, a
  latitude in \<open>[-90, 90]\<close> and a longitude in \<open>[-180, 180]\<close>, the components it prints
  are integers: degrees in \<open>[0, 90]\<close> and \<open>[0, 180]\<close>, minutes in \<open>[0, 59]\<close>, seconds in
  \<open>[0, 60]\<close>.
\<close>

theorem dms_component_ranges:
  assumes "is_double a" and "is_double b"
    and "- 90 \<le> a" and "a \<le> 90" and "- 180 \<le> b" and "b \<le> 180"
  shows "\<exists>d m s d' m' s'.
           convertToDMS (Fin a) (Fin b) =
             ToString (Fin (of_int d)) @ degree_sign @ ToString (Fin (of_int m)) @ prime_sign @
             ToString (Fin (of_int s)) @ double_prime_sign @ (if 0 \<le> a then ''N'' else ''S'') @
             '', '' @
             ToString (Fin (of_int d')) @ degree_sign @ ToString (Fin (of_int m')) @ prime_sign @
             ToString (Fin (of_int s')) @ double_prime_sign @ (if 0 \<le> b then ''E'' else ''W'')
           \<and> 0 \<le> d \<and> d \<le> 90 \<and> 0 \<le> m \<and> m \<le> 59 \<and> 0 \<le> s \<and> s \<le> 60
           \<and> 0 \<le> d' \<and> d' \<le> 180 \<and> 0 \<le> m' \<and> m' \<le> 59 \<and> 0 \<le> s' \<and> s' \<le> 60"
proof -
  obtain m s where lat:
    "dms_degrees (Fin a) = Fin (of_int \<lfloor>\<bar>a\<bar>\<rfloor>)" "dms_minutes (Fin a) = Fin (of_int m)"
    "dms_seconds (Fin a) = Fin (of_int s)" "0 \<le> m" "m \<le> 59" "0 \<le> s" "s \<le> 60"
    using dms_components [OF assms(1)] by blast
  obtain m' s' where lng:
    "dms_degrees (Fin b) = Fin (of_int \<lfloor>\<bar>b\<bar>\<rfloor>)" "dms_minutes (Fin b) = Fin (of_int m')"
    "dms_seconds (Fin b) = Fin (of_int s')" "0 \<le> m'" "m' \<le> 59" "0 \<le> s'" "s' \<le> 60"
    using dms_components [OF assms(2)] by blast
  have "\<bar>a\<bar> \<le> 90" "\<bar>b\<bar> \<le> 180"
    using assms(3-6) by simp_all
  then have d: "0 \<le> \<lfloor>\<bar>a\<bar>\<rfloor>" "\<lfloor>\<bar>a\<bar>\<rfloor> \<le> 90" "0 \<le> \<lfloor>\<bar>b\<bar>\<rfloor>" "\<lfloor>\<bar>b\<bar>\<rfloor> \<le> 180"
    by (simp_all add: floor_le_iff)
  have "convertToDMS (Fin a) (Fin b) =
      ToString (Fin (of_int \<lfloor>\<bar>a\<bar>\<rfloor>)) @ degree_sign @ ToString (Fin (of_int m)) @ prime_sign @
      ToString (Fin (of_int s)) @ double_prime_sign @ (if 0 \<le> a then ''N'' else ''S'') @
      '', '' @
      ToString (Fin (of_int \<lfloor>\<bar>b\<bar>\<rfloor>)) @ degree_sign @ ToString (Fin (of_int m')) @ prime_sign @
      ToString (Fin (of_int s')) @ double_prime_sign @ (if 0 \<le> b then ''E'' else ''W'')"
    by (simp only: convertToDMS_axes dms_axis_def lat(1-3) lng(1-3) js_ge.simps append_assoc)
  with d lat(4-7) lng(4-7) show ?thesis
    by blast
qed

theorem dms_component_ranges_witness:
  "is_double (7092381283173741 / 281474976710656)
   \<and> is_double (3889590113173871 / 70368744177664)
   \<and> (\<exists>d m s d' m' s'.
         convertToDMS (Fin (7092381283173741 / 281474976710656))
                      (Fin (3889590113173871 / 70368744177664)) =
           ToString (Fin (of_int d)) @ degree_sign @ ToString (Fin (of_int m)) @ prime_sign @
           ToString (Fin (of_int s)) @ double_prime_sign @ ''N'' @ '', '' @
           ToString (Fin (of_int d')) @ degree_sign @ ToString (Fin (of_int m')) @ prime_sign @
           ToString (Fin (of_int s')) @ double_prime_sign @ ''E''
         \<and> 0 \<le> d \<and> d \<le> 90 \<and> 0 \<le> m \<and> m \<le> 59 \<and> 0 \<le> s \<and> s \<le> 60
         \<and> 0 \<le> d' \<and> d' \<le> 180 \<and> 0 \<le> m' \<and> m' \<le> 59 \<and> 0 \<le> s' \<and> s' \<le> 60)"
proof -
  let ?a = "7092381283173741 / 281474976710656 :: rat"
  let ?b = "3889590113173871 / 70368744177664 :: rat"
  have "round64 (251972 / 10000) = Fin ?a"
    by (simp add: round64_eval [of 4] rhe_numeral_div)
  then have da: "is_double ?a"
    by (rule round64_double)
  have "round64 (552744 / 10000) = Fin ?b"
    by (simp add: round64_eval [of 5] rhe_numeral_div)
  then have db: "is_double ?b"
    by (rule round64_double)
  have r: "- 90 \<le> ?a" "?a \<le> 90" "- 180 \<le> ?b" "?b \<le> 180"
    by simp_all
  from dms_component_ranges [OF da db r] da db show ?thesis
    by simp
qed

text \<open>
  C6. A seconds value that rounds to 60 is printed as 60 and nothing is carried into
  the minutes: the latitude \<open>0.99999\<close> is formatted as \<open>0\<degree>59\<Zprime>60\<Zsecond>N\<close>.
\<close>

theorem seconds_60_not_carried:
  "dms_degrees (parseFloat (Some ''0.99999'')) = Fin 0
   \<and> dms_minutes (parseFloat (Some ''0.99999'')) = Fin 59
   \<and> dms_seconds (parseFloat (Some ''0.99999'')) = Fin 60
   \<and> convertToDMS (parseFloat (Some ''0.99999'')) (Fin 0) =
       ''0'' @ degree_sign @ ''59'' @ prime_sign @ ''60'' @ double_prime_sign @ ''N, '' @
       ''0'' @ degree_sign @ ''0'' @ prime_sign @ ''0'' @ double_prime_sign @ ''E''"
  by (simp add: convertToDMS_axes dms_axis_def parseFloat_0_99999 dms_0_99999 dms_zero
      ToString_eval)

section \<open>Properties of the relay\<close>

lemmas handler_defs = generate_handler_def try_block_def Let_def

lemmas demo_defs =
  demo_world_def demo_request_def demo_file_def demo_result_def no_file_request_def
  empty_file_world_def empty_file_request_def failing_upload_world_def
  empty_images_result_def empty_images_world_def single_image_result_def
  single_image_world_def

lemmas url_defs = generatedImageUrl_def images_url_def image_url_def truthy_def

lemma convertToDMS_NaN: "convertToDMS NaN NaN = nan_dms"
  by (simp add: convertToDMS_def nan_dms_def)

lemma parseFloat_undefined: "parseFloat None = NaN"
  by (simp add: parse_eval)

lemma parseFloat_abc: "parseFloat (Some ''abc'') = NaN"
  by (simp add: parse_eval)

text \<open>
  C2, as amended. A request without a file part is answered 400 with the body
  \<open>{ error: 'No image file provided' }\<close>, and neither the storage upload nor the
  generation service is called. The guard tests the presence of \<open>req.file\<close>, not the
  length of its contents.
\<close>

theorem no_file_rejected:
  "req_file req = None \<Longrightarrow>
     generate_handler w req = ([Respond 400 (ErrorBody ''No image file provided'')], files w)
     \<and> sent_response (fst (generate_handler w req))
         = Some (400, ErrorBody ''No image file provided'')
     \<and> external_calls (fst (generate_handler w req)) = []"
  by (simp add: handler_defs sent_response_def external_calls_def)

theorem no_file_rejected_witness:
  "req_file no_file_request = None
   \<and> generate_handler demo_world no_file_request
       = ([Respond 400 (ErrorBody ''No image file provided'')], files demo_world)
   \<and> sent_response (fst (generate_handler demo_world no_file_request))
       = Some (400, ErrorBody ''No image file provided'')
   \<and> external_calls (fst (generate_handler demo_world no_file_request)) = []"
proof -
  have "req_file no_file_request = None"
    by (simp add: no_file_request_def)
  with no_file_rejected [of no_file_request demo_world] show ?thesis
    by blast
qed

text \<open>
  C2, as stated, fails: a request whose file part is present with zero bytes has an
  empty image payload, yet the handler uploads it, calls the generation service and
  answers 200.
\<close>

theorem empty_payload_not_rejected:
  "image_payload empty_file_world empty_file_request = []
   \<and> external_calls (fst (generate_handler empty_file_world empty_file_request)) \<noteq> []
   \<and> sent_response (fst (generate_handler empty_file_world empty_file_request))
       = Some (200, SuccessBody True ''https://fal.media/out.png''
                      ''Image generated successfully with fal.ai'' ''req-1'')"
  by (simp add: image_payload_def demo_defs handler_defs url_defs sent_response_def
      external_calls_def)

text \<open>
  C3. When the storage upload throws, the handler answers 500 with the message
  \<open>'Failed to generate image. '\<close> followed by the message of the error thrown, and the
  trace holds no call of the generation service. In every run, a call of the
  generation service is preceded by a storage upload that returned the URL it is given.
\<close>

theorem upload_failure_stops_relay:
  "(req_file req = Some f \<and> files w (path f) = Some bytes
      \<and> storage_upload w bytes (mimetype f) = Inl e \<longrightarrow>
      generate_handler w req =
        ([ReadFile (path f), StorageUpload bytes (mimetype f),
          Respond 500 (ErrorBody (''Failed to generate image. '' @ message e))], files w))
   \<and> (Subscribe ep p us \<in> set (fst (generate_handler w req)) \<longrightarrow>
        (\<exists>f bytes u. req_file req = Some f \<and> files w (path f) = Some bytes
           \<and> storage_upload w bytes (mimetype f) = Inr u \<and> us = [u]))"
  by (auto simp: handler_defs split: option.splits sum.splits if_splits)

theorem upload_failure_stops_relay_witness:
  "req_file demo_request = Some demo_file
   \<and> files failing_upload_world (path demo_file) = Some [1, 2, 3]
   \<and> storage_upload failing_upload_world [1, 2, 3] (mimetype demo_file)
       = Inl (Error ''Unauthorized'')
   \<and> generate_handler failing_upload_world demo_request =
        ([ReadFile ''uploads/3f2a'', StorageUpload [1, 2, 3] ''image/png'',
          Respond 500 (ErrorBody ''Failed to generate image. Unauthorized'')],
         files failing_upload_world)
   \<and> Subscribe fal_endpoint (prompt_of nan_dms) [''https://fal.media/in.png'']
       \<in> set (fst (generate_handler demo_world demo_request))
   \<and> storage_upload demo_world [1, 2, 3] (mimetype demo_file) = Inr ''https://fal.media/in.png''"
proof -
  have a: "req_file demo_request = Some demo_file"
    by (simp add: demo_request_def)
  have b: "files failing_upload_world (path demo_file) = Some [1, 2, 3]"
    by (simp add: demo_defs)
  have c: "storage_upload failing_upload_world [1, 2, 3] (mimetype demo_file)
             = Inl (Error ''Unauthorized'')"
    by (simp add: demo_defs)
  have d: "Subscribe fal_endpoint (prompt_of nan_dms) [''https://fal.media/in.png'']
             \<in> set (fst (generate_handler demo_world demo_request))"
    by (simp add: handler_defs demo_defs url_defs parseFloat_undefined parseFloat_abc
        convertToDMS_NaN)
  from upload_failure_stops_relay
         [of demo_request demo_file failing_upload_world "[1, 2, 3]" "Error ''Unauthorized''"
             fal_endpoint "prompt_of nan_dms" "[''https://fal.media/in.png'']"] a b c
  have e: "generate_handler failing_upload_world demo_request =
        ([ReadFile ''uploads/3f2a'', StorageUpload [1, 2, 3] ''image/png'',
          Respond 500 (ErrorBody ''Failed to generate image. Unauthorized'')],
         files failing_upload_world)"
    by (simp add: demo_file_def)
  have f: "storage_upload demo_world [1, 2, 3] (mimetype demo_file) = Inr ''https://fal.media/in.png''"
    by (simp add: demo_defs)
  from a b c d e f show ?thesis
    by blast
qed

text \<open>
  C4. After the generation call has returned, the URL is taken from the first entry of
  the \<open>images\<close> list and, when that gives nothing usable, from the \<open>image\<close> field. A
  response with \<open>images: [{url: X}, ...]\<close> and \<open>X\<close> non-empty is answered 200 with
  \<open>{ success: true, imageUrl: X, message: ..., requestId: ... }\<close>, the request id being
  the one of the generation call; an empty \<open>images\<close> list and no \<open>image\<close> field are
  answered 500 with the message of the \<open>No image generated\<close> error.
\<close>

theorem image_url_extraction:
  assumes "req_file req = Some f" and "files w (path f) = Some bytes"
    and "storage_upload w bytes (mimetype f) = Inr u"
    and "subscribe w fal_endpoint
           (prompt_of (convertToDMS (parseFloat (lat req)) (parseFloat (lng req)))) [u] = Inr r"
  shows "(data r = Some d \<and> images d = Some (i # rest) \<and> url i = Some X \<and> X \<noteq> [] \<longrightarrow>
            sent_response (fst (generate_handler w req))
              = Some (200, SuccessBody True X ''Image generated successfully with fal.ai''
                             (requestId r)))
       \<and> (data r = Some d \<and> images d = Some [] \<and> image_single d = None \<longrightarrow>
            sent_response (fst (generate_handler w req))
              = Some (500, ErrorBody ''Failed to generate image. No image generated''))
       \<and> (\<not> truthy (images_url r) \<and> image_url r = Some Y \<and> Y \<noteq> [] \<longrightarrow>
            sent_response (fst (generate_handler w req))
              = Some (200, SuccessBody True Y ''Image generated successfully with fal.ai''
                             (requestId r)))"
  using assms by (simp add: handler_defs sent_response_def url_defs)

theorem image_url_extraction_witness:
  "sent_response (fst (generate_handler demo_world demo_request))
     = Some (200, SuccessBody True ''https://fal.media/out.png''
                    ''Image generated successfully with fal.ai'' ''req-1'')
   \<and> sent_response (fst (generate_handler empty_images_world demo_request))
     = Some (500, ErrorBody ''Failed to generate image. No image generated'')
   \<and> sent_response (fst (generate_handler single_image_world demo_request))
     = Some (200, SuccessBody True ''https://fal.media/one.png''
                    ''Image generated successfully with fal.ai'' ''req-3'')"
proof -
  let ?p = "prompt_of (convertToDMS (parseFloat (lat demo_request)) (parseFloat (lng demo_request)))"
  let ?u = "''https://fal.media/in.png''"
  have a: "req_file demo_request = Some demo_file"
    by (simp add: demo_request_def)
  have b: "files demo_world (path demo_file) = Some [1, 2, 3]"
    "files empty_images_world (path demo_file) = Some [1, 2, 3]"
    "files single_image_world (path demo_file) = Some [1, 2, 3]"
    by (simp_all add: demo_defs)
  have c: "storage_upload demo_world [1, 2, 3] (mimetype demo_file) = Inr ?u"
    "storage_upload empty_images_world [1, 2, 3] (mimetype demo_file) = Inr ?u"
    "storage_upload single_image_world [1, 2, 3] (mimetype demo_file) = Inr ?u"
    by (simp_all add: demo_defs)
  have d: "subscribe demo_world fal_endpoint ?p [?u] = Inr demo_result"
    "subscribe empty_images_world fal_endpoint ?p [?u] = Inr empty_images_result"
    "subscribe single_image_world fal_endpoint ?p [?u] = Inr single_image_result"
    by (simp_all add: demo_world_def empty_images_world_def single_image_world_def)
  have 1: "sent_response (fst (generate_handler demo_world demo_request))
     = Some (200, SuccessBody True ''https://fal.media/out.png''
                    ''Image generated successfully with fal.ai'' ''req-1'')"
    using image_url_extraction [OF a b(1) c(1) d(1),
        of "\<lparr>images = Some [\<lparr>url = Some ''https://fal.media/out.png''\<rparr>], image_single = None\<rparr>"
           "\<lparr>url = Some ''https://fal.media/out.png''\<rparr>" "[]" "''https://fal.media/out.png''"]
    by (simp add: demo_result_def)
  have 2: "sent_response (fst (generate_handler empty_images_world demo_request))
     = Some (500, ErrorBody ''Failed to generate image. No image generated'')"
    using image_url_extraction [OF a b(2) c(2) d(2),
        of "\<lparr>images = Some [], image_single = None\<rparr>"]
    by (simp add: empty_images_result_def)
  have 3: "sent_response (fst (generate_handler single_image_world demo_request))
     = Some (200, SuccessBody True ''https://fal.media/one.png''
                    ''Image generated successfully with fal.ai'' ''req-3'')"
    using image_url_extraction [OF a b(3) c(3) d(3), of _ _ _ _ "''https://fal.media/one.png''"]
    by (simp add: single_image_result_def url_defs)
  from 1 2 3 show ?thesis
    by blast
qed

text \<open>
  C7. When the upload and the generation succeed and the result holds an image URL, the
  handler reads the file, makes the two calls, sends the 200 response and then calls
  \<open>fs.unlinkSync\<close>: the file is gone. A request with a file ends in one of two ways:
  with the 200 response followed by the unlink, nothing having been unlinked or answered
  before; or with the 500 response of the \<open>catch\<close> clause, nothing having been unlinked,
  and the file system as it was. \<open>fs.unlinkSync\<close> is called in that one place only, and
  whenever 500 has been answered the temporary file stays.
\<close>

theorem unlink_only_after_success_response:
  "(Unlink p \<in> set (fst (generate_handler w req)) \<longrightarrow>
      (\<exists>pre f u r. req_file req = Some f \<and> p = path f
         \<and> fst (generate_handler w req)
             = pre @ [Respond 200 (SuccessBody True u ''Image generated successfully with fal.ai'' r),
                      Unlink p]
         \<and> snd (generate_handler w req) = (files w)(p := None)))
   \<and> (Respond 500 b \<in> set (fst (generate_handler w req)) \<longrightarrow>
        snd (generate_handler w req) = files w
        \<and> (\<forall>q. Unlink q \<notin> set (fst (generate_handler w req))))
   \<and> (req_file req = Some f \<and> files w (path f) = Some bytes
        \<and> storage_upload w bytes (mimetype f) = Inr u
        \<and> subscribe w fal_endpoint
             (prompt_of (convertToDMS (parseFloat (lat req)) (parseFloat (lng req)))) [u] = Inr r
        \<and> truthy (generatedImageUrl r) \<longrightarrow>
        generate_handler w req =
          ([ReadFile (path f), StorageUpload bytes (mimetype f),
            Subscribe fal_endpoint
              (prompt_of (convertToDMS (parseFloat (lat req)) (parseFloat (lng req)))) [u],
            Respond 200
              (SuccessBody True (the (generatedImageUrl r))
                 ''Image generated successfully with fal.ai'' (requestId r)),
            Unlink (path f)],
           (files w)(path f := None))
        \<and> snd (generate_handler w req) (path f) = None)
   \<and> (req_file req = Some f \<longrightarrow>
        (\<exists>pre c. fst (generate_handler w req) = pre @ [Respond 200 c, Unlink (path f)]
            \<and> (\<forall>q. Unlink q \<notin> set pre) \<and> (\<forall>s d. Respond s d \<notin> set pre)
            \<and> snd (generate_handler w req) = (files w)(path f := None))
        \<or> (\<exists>pre msg. fst (generate_handler w req) = pre @ [Respond 500 (ErrorBody msg)]
            \<and> (\<forall>q. Unlink q \<notin> set pre) \<and> (\<forall>s d. Respond s d \<notin> set pre)
            \<and> snd (generate_handler w req) = files w))"
proof -
  have 1: "Unlink p \<in> set (fst (generate_handler w req)) \<longrightarrow>
      (\<exists>pre f u r. req_file req = Some f \<and> p = path f
         \<and> fst (generate_handler w req)
             = pre @ [Respond 200 (SuccessBody True u ''Image generated successfully with fal.ai'' r),
                      Unlink p]
         \<and> snd (generate_handler w req) = (files w)(p := None))"
    by (auto simp: handler_defs split: option.splits sum.splits if_splits)
  have 2: "Respond 500 b \<in> set (fst (generate_handler w req)) \<longrightarrow>
        snd (generate_handler w req) = files w
        \<and> (\<forall>q. Unlink q \<notin> set (fst (generate_handler w req)))"
    by (auto simp: handler_defs split: option.splits sum.splits if_splits)
  have 3: "req_file req = Some f \<and> files w (path f) = Some bytes
        \<and> storage_upload w bytes (mimetype f) = Inr u
        \<and> subscribe w fal_endpoint
             (prompt_of (convertToDMS (parseFloat (lat req)) (parseFloat (lng req)))) [u] = Inr r
        \<and> truthy (generatedImageUrl r) \<longrightarrow>
        generate_handler w req =
          ([ReadFile (path f), StorageUpload bytes (mimetype f),
            Subscribe fal_endpoint
              (prompt_of (convertToDMS (parseFloat (lat req)) (parseFloat (lng req)))) [u],
            Respond 200
              (SuccessBody True (the (generatedImageUrl r))
                 ''Image generated successfully with fal.ai'' (requestId r)),
            Unlink (path f)],
           (files w)(path f := None))
        \<and> snd (generate_handler w req) (path f) = None"
    by (simp add: handler_defs)
  have 4: "req_file req = Some f \<longrightarrow>
        (\<exists>pre c. fst (generate_handler w req) = pre @ [Respond 200 c, Unlink (path f)]
            \<and> (\<forall>q. Unlink q \<notin> set pre) \<and> (\<forall>s d. Respond s d \<notin> set pre)
            \<and> snd (generate_handler w req) = (files w)(path f := None))
        \<or> (\<exists>pre msg. fst (generate_handler w req) = pre @ [Respond 500 (ErrorBody msg)]
            \<and> (\<forall>q. Unlink q \<notin> set pre) \<and> (\<forall>s d. Respond s d \<notin> set pre)
            \<and> snd (generate_handler w req) = files w)"
    by (auto simp: handler_defs split: option.splits sum.splits if_splits)
  from 1 2 3 4 show ?thesis
    by blast
qed

theorem unlink_only_after_success_response_witness:
  "generate_handler demo_world demo_request =
     ([ReadFile ''uploads/3f2a'', StorageUpload [1, 2, 3] ''image/png'',
       Subscribe fal_endpoint (prompt_of nan_dms) [''https://fal.media/in.png''],
       Respond 200
         (SuccessBody True ''https://fal.media/out.png''
            ''Image generated successfully with fal.ai'' ''req-1''),
       Unlink ''uploads/3f2a''],
      (files demo_world)(''uploads/3f2a'' := None))
   \<and> files demo_world ''uploads/3f2a'' = Some [1, 2, 3]
   \<and> snd (generate_handler demo_world demo_request) ''uploads/3f2a'' = None
   \<and> Respond 500 (ErrorBody ''Failed to generate image. Unauthorized'')
       \<in> set (fst (generate_handler failing_upload_world demo_request))
   \<and> snd (generate_handler failing_upload_world demo_request) ''uploads/3f2a'' = Some [1, 2, 3]
   \<and> Unlink ''uploads/3f2a'' \<notin> set (fst (generate_handler failing_upload_world demo_request))"
proof -
  have h: "req_file demo_request = Some demo_file"
    "files demo_world (path demo_file) = Some [1, 2, 3]"
    "storage_upload demo_world [1, 2, 3] (mimetype demo_file) = Inr ''https://fal.media/in.png''"
    "convertToDMS (parseFloat (lat demo_request)) (parseFloat (lng demo_request)) = nan_dms"
    "subscribe demo_world fal_endpoint (prompt_of nan_dms) [''https://fal.media/in.png'']
       = Inr demo_result"
    "truthy (generatedImageUrl demo_result)"
    by (simp_all add: demo_defs url_defs parseFloat_undefined parseFloat_abc convertToDMS_NaN)
  have v: "path demo_file = ''uploads/3f2a''" "mimetype demo_file = ''image/png''"
    "the (generatedImageUrl demo_result) = ''https://fal.media/out.png''"
    "requestId demo_result = ''req-1''"
    by (simp_all add: demo_defs url_defs)
  note success =
    unlink_only_after_success_response
      [where w = demo_world and req = demo_request and f = demo_file
         and bytes = "[1, 2, 3]" and u = "''https://fal.media/in.png''" and r = demo_result,
       THEN conjunct2, THEN conjunct2, THEN conjunct1]
  from success h
  have a: "generate_handler demo_world demo_request =
          ([ReadFile (path demo_file), StorageUpload [1, 2, 3] (mimetype demo_file),
            Subscribe fal_endpoint (prompt_of nan_dms) [''https://fal.media/in.png''],
            Respond 200
              (SuccessBody True (the (generatedImageUrl demo_result))
                 ''Image generated successfully with fal.ai'' (requestId demo_result)),
            Unlink (path demo_file)],
           (files demo_world)(path demo_file := None))"
    "snd (generate_handler demo_world demo_request) (path demo_file) = None"
    by simp_all
  have b: "Respond 500 (ErrorBody ''Failed to generate image. Unauthorized'')
             \<in> set (fst (generate_handler failing_upload_world demo_request))"
    by (simp add: handler_defs demo_defs)
  note failure =
    unlink_only_after_success_response
      [where w = failing_upload_world and req = demo_request
         and b = "ErrorBody ''Failed to generate image. Unauthorized''",
       THEN conjunct2, THEN conjunct1]
  from b failure
  have d: "snd (generate_handler failing_upload_world demo_request) = files failing_upload_world"
    "\<forall>q. Unlink q \<notin> set (fst (generate_handler failing_upload_world demo_request))"
    by blast+
  have e: "files failing_upload_world ''uploads/3f2a'' = Some [1, 2, 3]"
    "files demo_world ''uploads/3f2a'' = Some [1, 2, 3]"
    by (simp_all add: demo_defs)
  from a b d e show ?thesis
    by (simp only: v) simp
qed



section \<open>Properties of the photo cache\<close>

lemma base64_encode_split: "base64_encode bs = b64_data bs @ b64_pad bs"
  by (induction bs rule: base64_encode.induct) simp_all

lemma length_b64_chars: "length b64_chars = 64"
  by (simp add: b64_chars_def)

lemma distinct_b64_chars: "distinct b64_chars"
  by (simp add: b64_chars_def)

lemma b64_index_enc_char: "n < 64 \<Longrightarrow> b64_index (enc_char n) = Some n"
proof -
  assume n: "n < 64"
  have "map_of (zip b64_chars [0..<64]) (b64_chars ! n) = Some ([0..<64] ! n)"
    using n by (intro map_of_zip_nth) (simp_all add: length_b64_chars distinct_b64_chars)
  then show ?thesis using n by (simp add: b64_index_def enc_char_def)
qed

lemma enc_char_in: "n < 64 \<Longrightarrow> enc_char n \<in> set b64_chars"
  by (simp add: enc_char_def length_b64_chars)

lemma byte_lt: "unat (a :: byte) < 256"
  using unsigned_less [of a, where ?'a = nat] by simp

lemma sextet_bounds:
  "unat (a :: byte) div 4 < 64"
  "unat (a :: byte) mod 4 * 16 < 64"
  "unat (a :: byte) mod 4 * 16 + unat (b :: byte) div 16 < 64"
  "unat (b :: byte) mod 16 * 4 < 64"
  "unat (b :: byte) mod 16 * 4 + unat (c :: byte) div 64 < 64"
  "unat (c :: byte) mod 64 < 64"
proof -
  have m: "unat a mod 4 < 4" "unat b mod 16 < 16" "unat c mod 64 < 64"
    by simp_all
  have d: "unat a div 4 < 64" "unat b div 16 < 16" "unat c div 64 < 4"
    using byte_lt [of a] byte_lt [of b] byte_lt [of c] by simp_all
  show "unat a div 4 < 64" by (rule d(1))
  show "unat a mod 4 * 16 < 64" using m(1) by simp
  show "unat a mod 4 * 16 + unat b div 16 < 64" using m(1) d(2) by simp
  show "unat b mod 16 * 4 < 64" using m(2) by simp
  show "unat b mod 16 * 4 + unat c div 64 < 64" using m(2) d(3) by simp
  show "unat c mod 64 < 64" by (rule m(3))
qed

lemma b64_data_chars: "set (b64_data bs) \<subseteq> set b64_chars"
  by (induction bs rule: b64_data.induct) (simp_all add: enc_char_in sextet_bounds)

lemma nat_sextets:
  fixes x y z :: nat
  assumes "y < 256" "z < 256"
  shows "x div 4 * 4 + (x mod 4 * 16 + y div 16) div 16 = x"
    and "(x mod 4 * 16 + y div 16) mod 16 * 16 + (y mod 16 * 4 + z div 64) div 4 = y"
    and "(y mod 16 * 4 + z div 64) mod 4 * 64 + z mod 64 = z"
    and "x div 4 * 4 + (x mod 4 * 16) div 16 = x"
    and "(x mod 4 * 16 + y div 16) mod 16 * 16 + (y mod 16 * 4) div 4 = y"
proof -
  have y16: "y div 16 < 16" using assms(1) by simp
  have z64: "z div 64 < 4" using assms(2) by simp
  have a: "(x mod 4 * 16 + y div 16) div 16 = x mod 4" using y16 by simp
  have b: "(x mod 4 * 16 + y div 16) mod 16 = y div 16" using y16 by simp
  have c: "(y mod 16 * 4 + z div 64) div 4 = y mod 16" using z64 by simp
  have d: "(y mod 16 * 4 + z div 64) mod 4 = z div 64" using z64 by simp
  show "x div 4 * 4 + (x mod 4 * 16 + y div 16) div 16 = x" by (simp only: a) simp
  show "(x mod 4 * 16 + y div 16) mod 16 * 16 + (y mod 16 * 4 + z div 64) div 4 = y"
    by (simp only: b c) simp
  show "(y mod 16 * 4 + z div 64) mod 4 * 64 + z mod 64 = z" by (simp only: d) simp
  show "x div 4 * 4 + (x mod 4 * 16) div 16 = x" by simp
  show "(x mod 4 * 16 + y div 16) mod 16 * 16 + (y mod 16 * 4) div 4 = y"
    by (simp only: b) simp
qed

lemma of_nat_unat_byte: "(of_nat (unat (a :: byte)) :: byte) = a"
  by simp

lemma sextet_join:
  "(of_nat (unat (a :: byte) div 4 * 4 + (unat a mod 4 * 16 + unat (b :: byte) div 16) div 16) :: byte) = a"
  "(of_nat ((unat (a :: byte) mod 4 * 16 + unat (b :: byte) div 16) mod 16 * 16
      + (unat b mod 16 * 4 + unat (c :: byte) div 64) div 4) :: byte) = b"
  "(of_nat ((unat (b :: byte) mod 16 * 4 + unat (c :: byte) div 64) mod 4 * 64 + unat c mod 64) :: byte) = c"
  "(of_nat (unat (a :: byte) div 4 * 4 + (unat a mod 4 * 16) div 16) :: byte) = a"
  "(of_nat ((unat (a :: byte) mod 4 * 16 + unat (b :: byte) div 16) mod 16 * 16
      + (unat b mod 16 * 4) div 4) :: byte) = b"
proof -
  note n = nat_sextets [OF byte_lt [of b] byte_lt [of c]]
  show "(of_nat (unat a div 4 * 4 + (unat a mod 4 * 16 + unat b div 16) div 16) :: byte) = a"
    by (simp only: n of_nat_unat_byte)
  show "(of_nat ((unat a mod 4 * 16 + unat b div 16) mod 16 * 16
      + (unat b mod 16 * 4 + unat c div 64) div 4) :: byte) = b"
    by (simp only: n of_nat_unat_byte)
  show "(of_nat ((unat b mod 16 * 4 + unat c div 64) mod 4 * 64 + unat c mod 64) :: byte) = c"
    by (simp only: n of_nat_unat_byte)
  show "(of_nat (unat a div 4 * 4 + (unat a mod 4 * 16) div 16) :: byte) = a"
    by (simp only: n of_nat_unat_byte)
  show "(of_nat ((unat a mod 4 * 16 + unat b div 16) mod 16 * 16
      + (unat b mod 16 * 4) div 4) :: byte) = b"
    by (simp only: n of_nat_unat_byte)
qed

lemma index_enc:
  "the (b64_index (enc_char (unat (a :: byte) div 4))) = unat a div 4"
  "the (b64_index (enc_char (unat (a :: byte) mod 4 * 16))) = unat a mod 4 * 16"
  "the (b64_index (enc_char (unat (a :: byte) mod 4 * 16 + unat (b :: byte) div 16)))
     = unat a mod 4 * 16 + unat b div 16"
  "the (b64_index (enc_char (unat (b :: byte) mod 16 * 4))) = unat b mod 16 * 4"
  "the (b64_index (enc_char (unat (b :: byte) mod 16 * 4 + unat (c :: byte) div 64)))
     = unat b mod 16 * 4 + unat c div 64"
  "the (b64_index (enc_char (unat (c :: byte) mod 64))) = unat c mod 64"
  by (simp_all only: b64_index_enc_char sextet_bounds option.sel)

lemma decode_b64_data:
  "decode_sextets (map (\<lambda>c. the (b64_index c)) (b64_data bs)) = Some bs"
proof (induction bs rule: b64_data.induct)
  case 1
  show ?case by simp
next
  case (2 a)
  show ?case
    by (simp only: b64_data.simps list.map index_enc decode_sextets.simps sextet_join)
next
  case (3 a b)
  show ?case
    by (simp only: b64_data.simps list.map index_enc decode_sextets.simps sextet_join)
next
  case (4 a b c rest)
  show ?case
    by (simp only: b64_data.simps list.map map_append append.simps index_enc
        decode_sextets.simps sextet_join "4.IH" option.map)
qed

lemma length_b64_data_mod: "length (b64_data bs) mod 4 \<noteq> 1"
  by (induction bs rule: b64_data.induct) simp_all

lemma length_base64_encode: "length (base64_encode bs) mod 4 = 0"
  by (induction bs rule: base64_encode.induct) simp_all

lemma b64_pad_cases: "b64_pad bs = [] \<or> b64_pad bs = ''='' \<or> b64_pad bs = ''==''"
  by (induction bs rule: b64_pad.induct) simp_all

lemma eq_notin_b64: "CHR ''='' \<notin> set b64_chars"
  by (simp add: b64_chars_def)

lemma eq_notin_data: "CHR ''='' \<notin> set (b64_data bs)"
  using b64_data_chars [of bs] eq_notin_b64 by blast

lemma strip_padding_encode: "strip_padding (base64_encode bs) = b64_data bs"
proof -
  let ?d = "b64_data bs"
  have len: "length (?d @ b64_pad bs) mod 4 = 0"
    using length_base64_encode [of bs] by (simp only: base64_encode_split)
  consider "b64_pad bs = []" | "b64_pad bs = ''=''" | "b64_pad bs = ''==''"
    using b64_pad_cases by blast
  then have "strip_padding (?d @ b64_pad bs) = ?d"
  proof cases
    case 1
    have a: "\<not> (2 \<le> length ?d \<and> drop (length ?d - 2) ?d = ''=='')"
    proof
      assume h: "2 \<le> length ?d \<and> drop (length ?d - 2) ?d = ''==''"
      then have "CHR ''='' \<in> set (drop (length ?d - 2) ?d)" by simp
      then have "CHR ''='' \<in> set ?d" by (rule in_set_dropD)
      then show False using eq_notin_data by blast
    qed
    have b: "\<not> (1 \<le> length ?d \<and> drop (length ?d - 1) ?d = ''='')"
    proof
      assume h: "1 \<le> length ?d \<and> drop (length ?d - 1) ?d = ''=''"
      then have "CHR ''='' \<in> set (drop (length ?d - 1) ?d)" by simp
      then have "CHR ''='' \<in> set ?d" by (rule in_set_dropD)
      then show False using eq_notin_data by blast
    qed
    have "strip_padding ?d = ?d"
      by (simp only: strip_padding_def a b if_False if_cancel)
    then show ?thesis by (simp only: 1 append_Nil2)
  next
    case 2
    have a: "\<not> (drop (length ?d - 1) ?d @ ''='' = ''=='')"
    proof
      assume h: "drop (length ?d - 1) ?d @ ''='' = ''==''"
      then have "drop (length ?d - 1) ?d = ''=''" by simp
      then have "CHR ''='' \<in> set (drop (length ?d - 1) ?d)" by simp
      then have "CHR ''='' \<in> set ?d" by (rule in_set_dropD)
      then show False using eq_notin_data by blast
    qed
    show ?thesis using len a by (simp add: 2 strip_padding_def)
  next
    case 3
    show ?thesis using len by (simp add: 3 strip_padding_def)
  qed
  then show ?thesis by (simp only: base64_encode_split)
qed

lemma ws_notin_b64: "c \<in> set b64_chars \<Longrightarrow> \<not> ascii_whitespace c"
  by (auto simp: b64_chars_def ascii_whitespace_def)

lemma base64_encode_chars: "set (base64_encode bs) \<subseteq> set b64_chars \<union> {CHR ''=''}"
  using b64_data_chars [of bs] b64_pad_cases [of bs] by (auto simp: base64_encode_split)

lemma filter_ws_encode:
  "filter (\<lambda>c. \<not> ascii_whitespace c) (base64_encode bs) = base64_encode bs"
proof -
  have "\<forall>c \<in> set (base64_encode bs). \<not> ascii_whitespace c"
    using base64_encode_chars [of bs] ws_notin_b64 by (auto simp: ascii_whitespace_def)
  then show ?thesis by (simp add: filter_id_conv)
qed

lemma b64_data_index: "c \<in> set (b64_data bs) \<Longrightarrow> b64_index c \<noteq> None"
proof -
  assume "c \<in> set (b64_data bs)"
  then have "c \<in> set b64_chars" using b64_data_chars by blast
  then obtain n where "n < 64" "c = b64_chars ! n"
    by (metis in_set_conv_nth length_b64_chars)
  then show ?thesis using b64_index_enc_char [of n] by (simp add: enc_char_def)
qed

lemma base64_roundtrip: "forgiving_base64_decode (base64_encode bs) = Some bs"
proof -
  have "\<not> list_ex (\<lambda>c. b64_index c = None) (b64_data bs)"
    using b64_data_index by (auto simp: list_ex_iff)
  then show ?thesis
    using length_b64_data_mod [of bs]
    by (simp add: forgiving_base64_decode_def Let_def filter_ws_encode strip_padding_encode
        decode_b64_data)
qed

lemma percent_decode_id: "CHR ''%'' \<notin> set s \<Longrightarrow> percent_decode s = s"
  by (induction s rule: percent_decode.induct) auto

lemma special_notin_b64:
  "CHR ''%'' \<notin> set b64_chars" "CHR ''#'' \<notin> set b64_chars" "CHR '','' \<notin> set b64_chars"
  by (simp_all add: b64_chars_def)

lemma special_notin_encode:
  "CHR ''%'' \<notin> set (base64_encode bs)" "CHR ''#'' \<notin> set (base64_encode bs)"
  using base64_encode_chars [of bs] special_notin_b64 by auto

lemma strip_whitespace_suffix:
  "\<exists>p. strip_whitespace (t @ '';base64'') = p @ '';base64''"
proof -
  have nw: "\<not> ascii_whitespace (CHR ''4'')" "\<not> ascii_whitespace (CHR '';'')"
    by (simp_all add: ascii_whitespace_def)
  have "\<exists>p. dropWhile ascii_whitespace (t @ '';base64'') = p @ '';base64''"
    by (cases "\<forall>x \<in> set t. ascii_whitespace x") (auto simp: dropWhile_append nw)
  then obtain p where p: "dropWhile ascii_whitespace (t @ '';base64'') = p @ '';base64''"
    by blast
  have "dropWhile ascii_whitespace (rev (p @ '';base64'')) = rev (p @ '';base64'')"
    by (simp add: nw)
  then have "strip_whitespace (t @ '';base64'') = p @ '';base64''"
    by (simp only: strip_whitespace_def p rev_rev_ident)
  then show ?thesis by blast
qed

lemma ends_with_base64_suffix: "ends_with_base64 (p @ '';base64'')"
  by (simp add: ends_with_base64_def ascii_lower_def)

lemma data_url_process_base64:
  assumes "CHR '','' \<notin> set t"
  shows "data_url_process (t @ '';base64,'' @ base64_encode bs) = Some bs"
proof -
  let ?u = "t @ '';base64,'' @ base64_encode bs"
  have u: "?u = (t @ '';base64'') @ CHR '','' # base64_encode bs" by simp
  have nc: "\<forall>x \<in> set (t @ '';base64''). x \<noteq> CHR '',''" using assms by auto
  have tw: "takeWhile (\<lambda>c. c \<noteq> CHR '','') ?u = t @ '';base64''"
    unfolding u using nc by (intro takeWhile_tail [THEN trans] takeWhile_eq_all_conv [THEN iffD2]) simp_all
  have dw: "dropWhile (\<lambda>c. c \<noteq> CHR '','') ?u = CHR '','' # base64_encode bs"
    unfolding u using nc by (simp add: dropWhile_append3)
  obtain p where p: "strip_whitespace (t @ '';base64'') = p @ '';base64''"
    using strip_whitespace_suffix by blast
  have pd: "percent_decode (base64_encode bs) = base64_encode bs"
    by (rule percent_decode_id [OF special_notin_encode(1)])
  show ?thesis
    by (simp only: data_url_process_def Let_def tw dw p list.case pd ends_with_base64_suffix
        if_True base64_roundtrip)
qed

lemma fetch_data_url:
  assumes "CHR '','' \<notin> set t" and "CHR ''#'' \<notin> set t"
  shows "fetch_blob net (''data:'' @ t @ '';base64,'' @ base64_encode bs) = Some bs"
proof -
  let ?u = "t @ '';base64,'' @ base64_encode bs"
  have "\<forall>x \<in> set ?u. x \<noteq> CHR ''#''"
    using assms(2) special_notin_encode(2) [of bs] by auto
  then have tk: "takeWhile (\<lambda>c. c \<noteq> CHR ''#'') ?u = ?u"
    by (simp only: takeWhile_eq_all_conv)
  have t5: "map ascii_lower (take 5 (''data:'' @ ?u)) = ''data:''"
    and d5: "drop 5 (''data:'' @ ?u) = ?u"
    by (simp_all add: ascii_lower_def)
  show ?thesis
    by (simp only: fetch_blob_def t5 d5 tk data_url_process_base64 [OF assms(1)]) simp
qed

lemma mounted_sel:
  "localStorage (mounted ls) = ls" "imageFile (mounted ls) = None"
  "imagePreview (mounted ls) = None" "selectedLocation (mounted ls) = None"
  by (simp_all add: mounted_def)

lemma upload_stores:
  assumes "readable f" and "length (data_url_of f) \<le> capacity (localStorage st)"
  shows "handleImageUpload st (Some f) =
     st\<lparr>imageFile := Some f, imagePreview := Some (data_url_of f),
        localStorage := (localStorage st)\<lparr>items := (items (localStorage st))
                                              (storage_key \<mapsto> data_url_of f)\<rparr>\<rparr>"
  using assms by (simp add: handleImageUpload_def readAsDataURL_def setItem_def Let_def)

lemma load_recreates:
  assumes "getItem (localStorage st) storage_key = Some s" and "s \<noteq> []"
    and "fetch_blob net s = Some blob"
  shows "loadSavedImage net st =
     st\<lparr>imagePreview := Some s, imageFile := Some (recreated_file blob)\<rparr>"
  using assms by (simp add: loadSavedImage_def)

lemma generate_recreates:
  assumes "selectedLocation st = Some loc" and "imageFile st = None"
    and "imagePreview st = Some s" and "s \<noteq> []" and "fetch_blob net s = Some blob"
  shows "handleGenerate net st = (st\<lparr>imageFile := Some (recreated_file blob)\<rparr>, RetryScheduled)"
  using assms by (simp add: handleGenerate_def)

lemma fetch_data_url_of:
  assumes "CHR '','' \<notin> set (media_type f)" and "CHR ''#'' \<notin> set (media_type f)"
  shows "fetch_blob net (data_url_of f) = Some (content f)"
proof (cases "media_type f = []")
  case True
  have "CHR '','' \<notin> set ''application/octet-stream''"
    "CHR ''#'' \<notin> set ''application/octet-stream''"
    by simp_all
  from fetch_data_url [OF this, of net "content f"] show ?thesis
    by (simp add: data_url_of_def True)
next
  case False
  from fetch_data_url [OF assms] show ?thesis
    by (simp only: data_url_of_def False if_False)
qed

lemma data_url_of_nonempty: "data_url_of f \<noteq> []"
  by (simp add: data_url_of_def)

lemma reload_after_upload:
  assumes "readable f" and "length (data_url_of f) \<le> capacity (localStorage st)"
    and "CHR '','' \<notin> set (media_type f)" and "CHR ''#'' \<notin> set (media_type f)"
  shows "imageFile (loadSavedImage net (mounted (localStorage (handleImageUpload st (Some f)))))
           = Some (recreated_file (content f))"
proof -
  let ?ls = "localStorage (handleImageUpload st (Some f))"
  have "getItem (localStorage (mounted ?ls)) storage_key = Some (data_url_of f)"
    by (simp add: upload_stores [OF assms(1,2)] mounted_sel getItem_def)
  from load_recreates [OF this data_url_of_nonempty fetch_data_url_of [OF assms(3,4)]]
  show ?thesis by simp
qed

lemma retry_after_reset:
  assumes "readable f" and "length (data_url_of f) \<le> capacity (localStorage st)"
    and "CHR '','' \<notin> set (media_type f)" and "CHR ''#'' \<notin> set (media_type f)"
  shows "imageFile (fst (handleGenerate net
            ((resetSelection (handleImageUpload st (Some f)))\<lparr>selectedLocation := Some loc\<rparr>)))
           = Some (recreated_file (content f))"
proof -
  let ?st = "(resetSelection (handleImageUpload st (Some f)))\<lparr>selectedLocation := Some loc\<rparr>"
  have a: "selectedLocation ?st = Some loc" "imageFile ?st = None"
    "imagePreview ?st = Some (data_url_of f)"
    by (simp_all add: upload_stores [OF assms(1,2)] resetSelection_def)
  from generate_recreates [OF a data_url_of_nonempty fetch_data_url_of [OF assms(3,4)]]
  show ?thesis by simp
qed

text \<open>
  C8, as amended. For a file that can be read, whose media type has no comma and no
  \<open>#\<close>, and whose data URL the storage accepts, decoding the data URL gives back the
  bytes of the file. So the file that \<open>loadSavedImage\<close> recreates on the next start,
  the file that \<open>handleGenerate\<close> recreates from the preview, and the file sent to the
  relay after a restart all carry the bytes of the uploaded file.
\<close>

theorem cache_roundtrip:
  assumes "readable f" and "length (data_url_of f) \<le> capacity (localStorage st)"
    and "CHR '','' \<notin> set (media_type f)" and "CHR ''#'' \<notin> set (media_type f)"
  shows "fetch_blob net (data_url_of f) = Some (content f)
       \<and> (\<exists>g. imageFile (loadSavedImage net (mounted (localStorage (handleImageUpload st (Some f)))))
                 = Some g \<and> content g = content f)
       \<and> (\<exists>g. imageFile (fst (handleGenerate net
                 ((resetSelection (handleImageUpload st (Some f)))\<lparr>selectedLocation := Some loc\<rparr>)))
                 = Some g \<and> content g = content f)
       \<and> (\<exists>g. snd (handleGenerate net
                 ((loadSavedImage net (mounted (localStorage (handleImageUpload st (Some f)))))
                    \<lparr>selectedLocation := Some loc\<rparr>))
                 = Posted (ToString (fst loc)) (ToString (snd loc)) g \<and> content g = content f)"
proof -
  have 1: "fetch_blob net (data_url_of f) = Some (content f)"
    by (rule fetch_data_url_of [OF assms(3,4)])
  note r = reload_after_upload [OF assms, of net]
  have 2: "\<exists>g. imageFile (loadSavedImage net (mounted (localStorage (handleImageUpload st (Some f)))))
                 = Some g \<and> content g = content f"
    using r by (simp add: recreated_file_def)
  have 3: "\<exists>g. imageFile (fst (handleGenerate net
                 ((resetSelection (handleImageUpload st (Some f)))\<lparr>selectedLocation := Some loc\<rparr>)))
                 = Some g \<and> content g = content f"
    using retry_after_reset [OF assms, of net loc] by (simp add: recreated_file_def)
  have 4: "\<exists>g. snd (handleGenerate net
                 ((loadSavedImage net (mounted (localStorage (handleImageUpload st (Some f)))))
                    \<lparr>selectedLocation := Some loc\<rparr>))
                 = Posted (ToString (fst loc)) (ToString (snd loc)) g \<and> content g = content f"
    using r by (simp add: handleGenerate_def recreated_file_def)
  from 1 2 3 4 show ?thesis by blast
qed

theorem cache_roundtrip_witness:
  "readable png_file
   \<and> length (data_url_of png_file) \<le> capacity (localStorage (mounted roomy_storage))
   \<and> CHR '','' \<notin> set (media_type png_file) \<and> CHR ''#'' \<notin> set (media_type png_file)
   \<and> fetch_blob offline (data_url_of png_file) = Some [0x89, 0x50, 0x4E, 0x47]
   \<and> (\<exists>g. imageFile (loadSavedImage offline
               (mounted (localStorage (handleImageUpload (mounted roomy_storage) (Some png_file)))))
             = Some g \<and> content g = [0x89, 0x50, 0x4E, 0x47])"
proof -
  have a: "readable png_file"
    by (simp add: png_file_def)
  have b: "length (data_url_of png_file) \<le> capacity (localStorage (mounted roomy_storage))"
    by (simp add: data_url_of_def png_file_def mounted_def roomy_storage_def)
  have c: "CHR '','' \<notin> set (media_type png_file)" "CHR ''#'' \<notin> set (media_type png_file)"
    by (simp_all add: png_file_def)
  have d: "content png_file = [0x89, 0x50, 0x4E, 0x47]"
    by (simp add: png_file_def)
  from cache_roundtrip [OF a b c, of offline "(Fin 0, Fin 0)"] a b c d show ?thesis
    by simp
qed

text \<open>
  C8, as stated, fails. When the storage refuses the data URL of the upload, the entry
  of an earlier upload stays, and after a restart the file recreated from the cache,
  the one sent to the relay, holds the bytes of the earlier image. When the media type
  of the file holds a \<open>#\<close>, the data URL is cut there: it does not decode, the entry is
  removed and no file is recreated.
\<close>

theorem cache_roundtrip_fails:
  "content png_file = [0x89, 0x50, 0x4E, 0x47]
   \<and> imageFile (loadSavedImage offline
         (mounted (localStorage
            (handleImageUpload (handleImageUpload (mounted tight_storage) (Some older_file))
               (Some png_file)))))
       = Some (recreated_file [0x01])
   \<and> snd (handleGenerate offline
         ((loadSavedImage offline
            (mounted (localStorage
               (handleImageUpload (handleImageUpload (mounted tight_storage) (Some older_file))
                  (Some png_file)))))
          \<lparr>selectedLocation := Some (Fin 0, Fin 0)\<rparr>))
       = Posted (ToString (Fin 0)) (ToString (Fin 0)) (recreated_file [0x01])
   \<and> content odd_type_file = [0x89, 0x50, 0x4E, 0x47]
   \<and> fetch_blob offline (data_url_of odd_type_file) = None
   \<and> imageFile (loadSavedImage offline
         (mounted (localStorage (handleImageUpload (mounted roomy_storage) (Some odd_type_file)))))
       = None
   \<and> getItem (localStorage (loadSavedImage offline
         (mounted (localStorage (handleImageUpload (mounted roomy_storage) (Some odd_type_file))))))
         storage_key
       = None"
proof -
  let ?old = "data_url_of older_file"
  let ?ls1 = "tight_storage\<lparr>items := (items tight_storage)(storage_key \<mapsto> ?old)\<rparr>"
  have o: "readable older_file" "CHR '','' \<notin> set (media_type older_file)"
    "CHR ''#'' \<notin> set (media_type older_file)" "content older_file = [0x01]"
    by (simp_all add: older_file_def)
  have l1: "length ?old \<le> capacity (localStorage (mounted tight_storage))"
    by (simp add: data_url_of_def older_file_def mounted_def tight_storage_def)
  have u1: "localStorage (handleImageUpload (mounted tight_storage) (Some older_file)) = ?ls1"
    by (simp add: upload_stores [OF o(1) l1] mounted_sel)
  have pr: "readable png_file"
    by (simp add: png_file_def)
  have l2: "\<not> length (data_url_of png_file) \<le> capacity ?ls1"
    by (simp add: data_url_of_def png_file_def tight_storage_def)
  have u2: "localStorage
        (handleImageUpload (handleImageUpload (mounted tight_storage) (Some older_file))
           (Some png_file)) = ?ls1"
    using l2 pr by (simp add: handleImageUpload_def [of _ "Some png_file"] readAsDataURL_def
        setItem_def Let_def u1)
  have g: "getItem (localStorage (mounted ?ls1)) storage_key = Some ?old"
    by (simp add: mounted_sel getItem_def)
  have f: "fetch_blob offline ?old = Some [0x01]"
    using fetch_data_url_of [OF o(2,3), of offline] by (simp only: o(4))
  have r: "loadSavedImage offline (mounted ?ls1)
      = (mounted ?ls1)\<lparr>imagePreview := Some ?old, imageFile := Some (recreated_file [0x01])\<rparr>"
    by (rule load_recreates [OF g data_url_of_nonempty f])
  have 1: "content png_file = [0x89, 0x50, 0x4E, 0x47]"
    by (simp add: png_file_def)
  have 2: "imageFile (loadSavedImage offline
         (mounted (localStorage
            (handleImageUpload (handleImageUpload (mounted tight_storage) (Some older_file))
               (Some png_file)))))
       = Some (recreated_file [0x01])"
    by (simp add: u2 r)
  have 3: "snd (handleGenerate offline
         ((loadSavedImage offline
            (mounted (localStorage
               (handleImageUpload (handleImageUpload (mounted tight_storage) (Some older_file))
                  (Some png_file)))))
          \<lparr>selectedLocation := Some (Fin 0, Fin 0)\<rparr>))
       = Posted (ToString (Fin 0)) (ToString (Fin 0)) (recreated_file [0x01])"
    by (simp add: u2 r handleGenerate_def)
  let ?odd = "data_url_of odd_type_file"
  let ?ls2 = "roomy_storage\<lparr>items := (items roomy_storage)(storage_key \<mapsto> ?odd)\<rparr>"
  have 4: "content odd_type_file = [0x89, 0x50, 0x4E, 0x47]"
    by (simp add: odd_type_file_def)
  have p: "readable odd_type_file"
    by (simp add: odd_type_file_def)
  have l3: "length ?odd \<le> capacity (localStorage (mounted roomy_storage))"
    by (simp add: data_url_of_def odd_type_file_def mounted_def roomy_storage_def)
  have u3: "localStorage (handleImageUpload (mounted roomy_storage) (Some odd_type_file)) = ?ls2"
    by (simp add: upload_stores [OF p l3] mounted_sel)
  have 5: "fetch_blob offline ?odd = None"
    by (simp add: fetch_blob_def data_url_of_def odd_type_file_def ascii_lower_def
        data_url_process_def)
  have g2: "getItem (localStorage (mounted ?ls2)) storage_key = Some ?odd"
    by (simp add: mounted_sel getItem_def)
  have r2: "loadSavedImage offline (mounted ?ls2)
      = (mounted ?ls2)\<lparr>imagePreview := Some ?odd,
           localStorage := removeItem ?ls2 storage_key, imagePreview := None\<rparr>"
    using g2 5 data_url_of_nonempty [of odd_type_file]
    by (simp add: loadSavedImage_def mounted_sel)
  have 6: "imageFile (loadSavedImage offline
         (mounted (localStorage (handleImageUpload (mounted roomy_storage) (Some odd_type_file)))))
       = None"
    by (simp add: u3 r2 mounted_sel)
  have 7: "getItem (localStorage (loadSavedImage offline
         (mounted (localStorage (handleImageUpload (mounted roomy_storage) (Some odd_type_file))))))
         storage_key
       = None"
    by (simp add: u3 r2 getItem_def removeItem_def)
  from 1 2 3 4 5 6 7 show ?thesis
    by blast
qed



end
